theory Spec2Isabelle
  imports Main "HOL-Library.Word"
begin

unbundle bit_operations_syntax

section \<open>Data model of \<open>bcd.h\<close>\<close>

text \<open>
  \<open>packed_BCD_pair\<close> is \<open>uint8_t\<close>: one byte, two decimal digits, the tens digit
  in the high nibble.
\<close>

type_synonym packed_BCD_pair = "8 word"

datatype comp_t = EQUAL_TO | GREATER_THAN | LESS_THAN | NO_COMP

datatype BCD_error =
    NON_ERR | ORIG_NAN | IS_FREED | ADD_NAN | SUB_NAN | MUL_NAN | DIV_NAN | POW_NAN
  | FACT_NAN | SHIFT_NAN | POW_NEG | FACT_NEG | DIV_ZERO | NO_MEM | NOT_SUPP | RESERVED

text \<open>
  \<open>struct BCD_int\<close>. The pointer \<open>data\<close> is \<open>None\<close> when it is \<open>NULL\<close> and otherwise
  holds the allocated buffer, least significant byte first; the buffer may be longer than
  \<open>bcd_digits\<close>. The fields \<open>zero\<close>, \<open>even\<close> and \<open>constant\<close> of the source are \<open>zero_flag\<close>,
  \<open>even_flag\<close> and \<open>constant_flag\<close> here. Counts of type \<open>size_t\<close> and the
  \<open>uintmax_t\<close> shift amounts are natural numbers; where the source subtracts them, or
  adds a shift amount to a digit count, the 64-bit wrap-around is written out (\<open>size_sub\<close>,
  \<open>size_add\<close> below).
\<close>

record BCD_int =
  data :: "packed_BCD_pair list option"
  bcd_digits :: nat
  decimal_digits :: nat
  negative :: bool
  zero_flag :: bool
  even_flag :: bool
  constant_flag :: bool
  nan :: bool
  error :: BCD_error
  orig_error :: BCD_error

text \<open>
  What a C program does on a bad memory access is not a value of the program. The model
  makes it one: an access through a null pointer, or a read or a store at an index outside
  the allocated buffer (the index and the buffer's size are recorded).
\<close>

datatype fault = NULL_DEREF | OOB_READ nat nat | OOB_WRITE nat nat

definition seq :: "fault + 'a \<Rightarrow> ('a \<Rightarrow> fault + 'b) \<Rightarrow> fault + 'b" where
  "seq m f = (case m of Inl e \<Rightarrow> Inl e | Inr v \<Rightarrow> f v)"

definition rd :: "'a list option \<Rightarrow> nat \<Rightarrow> fault + 'a" where
  "rd p i = (case p of
      None \<Rightarrow> Inl NULL_DEREF
    | Some bs \<Rightarrow> if i < length bs then Inr (bs ! i) else Inl (OOB_READ i (length bs)))"

definition wr :: "'a list \<Rightarrow> nat \<Rightarrow> 'a \<Rightarrow> fault + 'a list" where
  "wr bs i v = (if i < length bs then Inr (bs[i := v]) else Inl (OOB_WRITE i (length bs)))"

text \<open>The compound assignment \<open>bs[i] |= v\<close>.\<close>

definition wr_or :: "packed_BCD_pair list \<Rightarrow> nat \<Rightarrow> packed_BCD_pair \<Rightarrow> fault + packed_BCD_pair list" where
  "wr_or bs i v = (if i < length bs then Inr (bs[i := bs ! i OR v]) else Inl (OOB_WRITE i (length bs)))"

text \<open>
  \<open>size_t\<close> subtraction wraps around below zero, and an index formed from such a
  difference wraps back (\<open>size_t\<close> has 64 bits).
\<close>

definition size_sub :: "nat \<Rightarrow> nat \<Rightarrow> nat" where
  "size_sub a b = (if b \<le> a then a - b else 2 ^ 64 + a - b)"

definition size_add :: "nat \<Rightarrow> nat \<Rightarrow> nat" where
  "size_add a b = (a + b) mod 2 ^ 64"

subsection \<open>Constants and the error constructor\<close>

definition BCD_one :: BCD_int where
  "BCD_one = \<lparr> data = Some [1], bcd_digits = 1, decimal_digits = 1, negative = False,
     zero_flag = False, even_flag = False, constant_flag = True, nan = False,
     error = NON_ERR, orig_error = NON_ERR \<rparr>"

definition BCD_zero :: BCD_int where
  "BCD_zero = \<lparr> data = None, bcd_digits = 0, decimal_digits = 0, negative = False,
     zero_flag = True, even_flag = True, constant_flag = True, nan = False,
     error = NON_ERR, orig_error = NON_ERR \<rparr>"

definition BCD_nan :: BCD_int where
  "BCD_nan = \<lparr> data = None, bcd_digits = 0, decimal_digits = 0, negative = False,
     zero_flag = False, even_flag = False, constant_flag = True, nan = True,
     error = ORIG_NAN, orig_error = ORIG_NAN \<rparr>"

definition bcd_error :: "BCD_error \<Rightarrow> BCD_error \<Rightarrow> BCD_int" where
  "bcd_error e oe = \<lparr> data = None, bcd_digits = 0, decimal_digits = 0, negative = False,
     zero_flag = False, even_flag = False, constant_flag = False, nan = True,
     error = e, orig_error = oe \<rparr>"

subsection \<open>Sequencing and buffer helpers\<close>

lemma seq_Inl [simp]: "seq (Inl e) f = Inl e"
  by (simp add: seq_def)

lemma seq_Inr [simp]: "seq (Inr v) f = f v"
  by (simp add: seq_def)

lemma seq_cong [fundef_cong]:
  "m = m' \<Longrightarrow> (\<And>v. m' = Inr v \<Longrightarrow> f v = f' v) \<Longrightarrow> seq m f = seq m' f'"
  by (cases m') (simp_all add: seq_def)

text \<open>
  \<open>memcpy\<close>: \<open>rd_range p off n\<close> reads \<open>n\<close> bytes of \<open>p\<close> from offset \<open>off\<close>, and
  \<open>wr_range bs off vs\<close> stores \<open>vs\<close> into \<open>bs\<close> at offset \<open>off\<close>. A copy of no bytes
  touches nothing.
\<close>

definition rd_range :: "'a list option \<Rightarrow> nat \<Rightarrow> nat \<Rightarrow> fault + 'a list" where
  "rd_range p off n = (if n = 0 then Inr [] else case p of
      None \<Rightarrow> Inl NULL_DEREF
    | Some bs \<Rightarrow> if off + n \<le> length bs then Inr (take n (drop off bs))
                else Inl (OOB_READ (max off (length bs)) (length bs)))"

definition wr_range :: "'a list \<Rightarrow> nat \<Rightarrow> 'a list \<Rightarrow> fault + 'a list" where
  "wr_range bs off vs = (if vs = [] then Inr bs
     else if off + length vs \<le> length bs then Inr (take off bs @ vs @ drop (off + length vs) bs)
     else Inl (OOB_WRITE (max off (length bs)) (length bs)))"

text \<open>
  \<open>malloc\<close> and \<open>calloc\<close> always succeed here (the \<open>NO_MEM\<close> returns are not modelled)
  and give a buffer whose bytes are all \<open>0\<close>; the functions below store into every
  byte of a \<open>malloc\<close>ed buffer before they read it.
\<close>

definition alloc :: "nat \<Rightarrow> packed_BCD_pair list" where
  "alloc n = replicate n 0"

subsection \<open>Constructors\<close>

text \<open>
  \<open>ceil (log10 v)\<close> for the argument \<open>v = a + 1\<close> of \<open>new_BCD_int2\<close>: the least \<open>k\<close> with
  \<open>v \<le> 10 ^ k\<close>, computed exactly. The C code computes it in \<open>double\<close>, and that rounding
  is not modelled: where \<open>a + 1\<close> has no exact \<open>double\<close> (from \<open>2 ^ 53\<close> on; at
  \<open>a = 10 ^ 16\<close> the conversion gives \<open>10 ^ 16\<close>) or lies so close above a power of
  ten that \<open>log10\<close> rounds to a whole number, the code can count one digit less than this
  function does. At \<open>a = 2 ^ 64 - 1\<close> the sum \<open>a + 1\<close> wraps to \<open>0\<close>, \<open>log10\<close> is minus
  infinity and its conversion to \<open>size_t\<close> is not defined by C; this function gives \<open>0\<close>
  there. The properties below call \<open>new_BCD_int2\<close> on values below \<open>2 ^ 16\<close> only.
\<close>

function ceil_log10 :: "nat \<Rightarrow> nat" where
  "ceil_log10 v = (if v \<le> 1 then 0 else Suc (ceil_log10 ((v + 9) div 10)))"
  by pat_completeness auto
termination
  by (relation "measure id") auto

declare ceil_log10.simps [simp del]

text \<open>The loop of \<open>new_BCD_int2\<close>: two digits of \<open>a\<close> per byte, \<open>n\<close> bytes.\<close>

fun pack_digits :: "nat \<Rightarrow> 64 word \<Rightarrow> packed_BCD_pair list" where
  "pack_digits 0 a = []"
| "pack_digits (Suc n) a =
     ucast (push_bit 4 ((a mod 100) div 10) OR (a mod 10)) # pack_digits n (a div 100)"

definition new_BCD_int2 :: "64 word \<Rightarrow> bool \<Rightarrow> BCD_int" where
  "new_BCD_int2 a neg =
    (let dd = ceil_log10 (unat (a + 1)); n = (dd + 1) div 2 in
     \<lparr> data = Some (pack_digits n a), bcd_digits = n, decimal_digits = dd, negative = neg,
       zero_flag = (a = 0), even_flag = (a mod 2 = 0), constant_flag = False, nan = False,
       error = NON_ERR, orig_error = NON_ERR \<rparr>)"

definition new_BCD_int1 :: "64 word \<Rightarrow> BCD_int" where
  "new_BCD_int1 a = (if a <s 0 then new_BCD_int2 (- a) True else new_BCD_int2 a False)"

definition copy_BCD_int :: "BCD_int \<Rightarrow> fault + BCD_int" where
  "copy_BCD_int a = (case data a of
      None \<Rightarrow> Inr (a\<lparr>constant_flag := False\<rparr>)
    | Some bs \<Rightarrow> seq (rd_range (Some bs) 0 (bcd_digits a))
        (\<lambda>cp. Inr (a\<lparr>data := Some cp, constant_flag := False\<rparr>)))"

text \<open>
  The scan of \<open>BCD_from_bytes\<close> for the most significant nonzero byte:
  \<open>top_nonzero bs n\<close> looks at the indices \<open>n - 1\<close> down to \<open>0\<close> of the function's own buffer.
\<close>

fun top_nonzero :: "packed_BCD_pair list \<Rightarrow> nat \<Rightarrow> nat option" where
  "top_nonzero bs 0 = None"
| "top_nonzero bs (Suc i) = (if bs ! i \<noteq> 0 then Some i else top_nonzero bs i)"

definition BCD_from_bytes ::
    "packed_BCD_pair list option \<Rightarrow> nat \<Rightarrow> bool \<Rightarrow> bool \<Rightarrow> fault + BCD_int" where
  "BCD_from_bytes str chars neg little_endian =
    (if chars = 0 \<or> str = None then Inr BCD_zero
     else seq (rd_range str 0 chars) (\<lambda>src.
       let cdata = (if little_endian then src else rev src) in
       case top_nonzero cdata chars of
         None \<Rightarrow> Inr BCD_zero
       | Some i \<Rightarrow> Inr \<lparr> data = Some cdata, bcd_digits = i + 1,
           decimal_digits = (if cdata ! i AND 0xF0 \<noteq> 0 then i * 2 + 1 else i * 2),
           negative = neg, zero_flag = False, even_flag = (cdata ! 0 mod 2 = 0),
           constant_flag = False, nan = False, error = NON_ERR, orig_error = NON_ERR \<rparr>))"

text \<open>
  \<open>BCD_from_ascii\<close> packs the characters two per byte, most significant first: a lone
  leading digit when \<open>digits\<close> is odd, then \<open>ascii_pairs\<close> for the loop over \<open>i\<close> and \<open>j\<close>.
\<close>

function ascii_pairs ::
    "char list option \<Rightarrow> nat \<Rightarrow> nat \<Rightarrow> nat \<Rightarrow> packed_BCD_pair list \<Rightarrow> fault + packed_BCD_pair list" where
  "ascii_pairs str len i j bytes =
    (if i < len then
       seq (rd str j) (\<lambda>hi. seq (rd str (j + 1)) (\<lambda>lo.
       seq (wr bytes i (push_bit 4 (of_char hi - 48) OR ((of_char lo - 48) AND 0xF))) (\<lambda>bytes'.
         ascii_pairs str len (i + 1) (j + 2) bytes')))
     else Inr bytes)"
  by pat_completeness auto
termination
  by (relation "measure (\<lambda>(str, len, i, j, bytes). len - i)") auto

declare ascii_pairs.simps [simp del]

definition BCD_from_ascii :: "char list option \<Rightarrow> nat \<Rightarrow> bool \<Rightarrow> fault + BCD_int" where
  "BCD_from_ascii str digits neg =
    (let len = (digits + 1) div 2; i = digits mod 2 in
     seq (if i \<noteq> 0 then seq (rd str 0) (\<lambda>c. wr (alloc len) 0 (of_char c - 48))
          else Inr (alloc len)) (\<lambda>bytes0.
     seq (ascii_pairs str len i i bytes0) (\<lambda>bytes.
       BCD_from_bytes (Some bytes) len neg False)))"

subsection \<open>Comparison and sign\<close>

text \<open>
  The byte scan of \<open>cmp_bcd\<close>: \<open>cmp_scan xd yd neg n\<close> compares the indices \<open>n - 1\<close> down
  to \<open>0\<close>.
\<close>

fun cmp_scan ::
    "packed_BCD_pair list option \<Rightarrow> packed_BCD_pair list option \<Rightarrow> bool \<Rightarrow> nat \<Rightarrow> fault + comp_t" where
  "cmp_scan xd yd neg 0 = Inr EQUAL_TO"
| "cmp_scan xd yd neg (Suc i) =
     seq (rd xd i) (\<lambda>a. seq (rd yd i) (\<lambda>b.
       if a \<noteq> b then
         (if neg then Inr (if a > b then LESS_THAN else GREATER_THAN)
          else Inr (if a > b then GREATER_THAN else LESS_THAN))
       else cmp_scan xd yd neg i))"

definition cmp_bcd :: "BCD_int \<Rightarrow> BCD_int \<Rightarrow> fault + comp_t" where
  "cmp_bcd x y =
    (if nan x \<or> nan y then Inr NO_COMP
     else if negative x \<noteq> negative y then Inr (if negative x then LESS_THAN else GREATER_THAN)
     else if decimal_digits x \<noteq> decimal_digits y then
       (if decimal_digits x > decimal_digits y
        then Inr (if negative x then LESS_THAN else GREATER_THAN)
        else Inr (if negative x then GREATER_THAN else LESS_THAN))
     else cmp_scan (data x) (data y) (negative x) (bcd_digits x))"

definition sign_bcd :: "BCD_int \<Rightarrow> bool \<Rightarrow> bool \<Rightarrow> fault + BCD_int" where
  "sign_bcd x no_copy neg =
    (let x' = (if \<not> nan x then x\<lparr>negative := neg\<rparr> else x) in
     if no_copy then Inr x' else copy_BCD_int x')"

definition abs_bcd :: "BCD_int \<Rightarrow> bool \<Rightarrow> fault + BCD_int" where
  "abs_bcd x no_copy = sign_bcd x no_copy False"

definition neg_bcd :: "BCD_int \<Rightarrow> bool \<Rightarrow> fault + BCD_int" where
  "neg_bcd x no_copy = sign_bcd x no_copy True"

definition opp_bcd :: "BCD_int \<Rightarrow> bool \<Rightarrow> fault + BCD_int" where
  "opp_bcd x no_copy = sign_bcd x no_copy (\<not> negative x)"

subsection \<open>Addition and subtraction\<close>

text \<open>
  One byte of the first loop of \<open>add_bcd\<close>, in its portable C form (the branch taken
  without inline assembly): the sum byte and the outgoing carry. The comparison
  \<open>a > 0x99 - b\<close> is made on \<open>int\<close>, as C's integer promotion has it.
\<close>

definition add_step :: "packed_BCD_pair \<Rightarrow> packed_BCD_pair \<Rightarrow> bool \<Rightarrow> packed_BCD_pair \<times> bool" where
  "add_step a b overflow =
    (if \<not> (overflow \<or> a \<noteq> 0) then (b, False)
     else if \<not> (overflow \<or> b \<noteq> 0) then (a, False)
     else
       let b' = b + (if overflow then 1 else 0);
           c = a + b';
           overflow' = (uint a > 0x99 - uint b');
           c' = (if overflow' then c + 0x60 else c);
           c'' = (if uint (a AND 0xF) + uint (b' AND 0xF) > 9 then c' + 0x06 else c')
       in (c'', overflow'))"

function add_loop1 ::
    "packed_BCD_pair list option \<Rightarrow> packed_BCD_pair list option \<Rightarrow> nat \<Rightarrow> nat \<Rightarrow> bool
      \<Rightarrow> packed_BCD_pair list \<Rightarrow> fault + (nat \<times> bool \<times> packed_BCD_pair list)" where
  "add_loop1 xd yd min_digits i overflow z =
    (if i < min_digits then
       seq (rd xd i) (\<lambda>a. seq (rd yd i) (\<lambda>b.
         case add_step a b overflow of (c, overflow') \<Rightarrow>
           seq (wr z i c) (\<lambda>z'. add_loop1 xd yd min_digits (i + 1) overflow' z')))
     else Inr (i, overflow, z))"
  by pat_completeness auto
termination
  by (relation "measure (\<lambda>(xd, yd, min_digits, i, overflow, z). min_digits - i)") auto

declare add_loop1.simps [simp del]

text \<open>The second loop of \<open>add_bcd\<close>: the carry runs on through the longer operand.\<close>

definition add_carry_step :: "packed_BCD_pair \<Rightarrow> packed_BCD_pair \<times> bool" where
  "add_carry_step a0 =
    (let a = a0 + 1;
         a' = (if a AND 0x0F = 0x0A then a + 0x06 else a);
         overflow' = (a' AND 0xF0 = 0xA0);
         a'' = (if overflow' then a' + 0x60 else a')
     in (a'', overflow'))"

function add_loop2 ::
    "packed_BCD_pair list option \<Rightarrow> nat \<Rightarrow> nat \<Rightarrow> bool
      \<Rightarrow> packed_BCD_pair list \<Rightarrow> fault + (nat \<times> bool \<times> packed_BCD_pair list)" where
  "add_loop2 xd max_digits i overflow z =
    (if overflow \<and> i < max_digits then
       seq (rd xd i) (\<lambda>a0.
         case add_carry_step a0 of (a, overflow') \<Rightarrow>
           seq (wr z i a) (\<lambda>z'. add_loop2 xd max_digits (i + 1) overflow' z'))
     else Inr (i, overflow, z))"
  by pat_completeness auto
termination
  by (relation "measure (\<lambda>(xd, max_digits, i, overflow, z). max_digits - i)") auto

declare add_loop2.simps [simp del]

text \<open>
  \<open>add_digits\<close> is \<open>add_bcd\<close> from the declaration of \<open>min_digits\<close> on: both operands are
  finite, nonzero and of one sign.
\<close>

definition add_digits :: "BCD_int \<Rightarrow> BCD_int \<Rightarrow> fault + BCD_int" where
  "add_digits x y =
    (let min_digits = min (bcd_digits x) (bcd_digits y);
         max_digits = max (bcd_digits x) (bcd_digits y) in
     seq (add_loop1 (data x) (data y) min_digits 0 False (alloc (max_digits + 1)))
       (\<lambda>(i, overflow, z).
     let x' = (if bcd_digits x < bcd_digits y then y else x) in
     seq (add_loop2 (data x') max_digits i overflow z) (\<lambda>(i, overflow, z).
     seq (if i < max_digits
          then seq (rd_range (data x') i (max_digits - i)) (\<lambda>rest. wr_range z i rest)
          else Inr z) (\<lambda>z.
     seq (wr z max_digits (if overflow then 1 else 0)) (\<lambda>z.
     seq (if overflow then Inr (max_digits * 2 + 1)
          else seq (rd (Some z) (size_sub max_digits 1)) (\<lambda>top.
            Inr (if top AND 0xF0 \<noteq> 0 then max_digits * 2 else max_digits * 2 - 1)))
       (\<lambda>dd.
     seq (rd (Some z) 0) (\<lambda>z0.
       Inr \<lparr> data = Some z, bcd_digits = max_digits + (if overflow then 1 else 0),
             decimal_digits = dd, negative = negative x, zero_flag = False,
             even_flag = (z0 mod 2 = 0), constant_flag = False, nan = False,
             error = NON_ERR, orig_error = NON_ERR \<rparr>)))))))"

text \<open>One byte of the first loop of \<open>sub_bcd\<close>, in its portable C form.\<close>

definition sub_step :: "packed_BCD_pair \<Rightarrow> packed_BCD_pair \<Rightarrow> bool \<Rightarrow> packed_BCD_pair \<times> bool" where
  "sub_step a b carry =
    (let b' = b + (if carry then 1 else 0);
         c = a - b';
         carry' = (c AND 0xF0 > 0x99);
         c' = (if carry' then c - 0x60 else c);
         c'' = (if c' AND 0x0F > 9 then c' - 0x06 else c')
     in (c'', carry'))"

function sub_loop1 ::
    "packed_BCD_pair list option \<Rightarrow> packed_BCD_pair list option \<Rightarrow> nat \<Rightarrow> nat \<Rightarrow> bool
      \<Rightarrow> packed_BCD_pair list \<Rightarrow> fault + (nat \<times> bool \<times> packed_BCD_pair list)" where
  "sub_loop1 xd yd min_digits i carry z =
    (if i < min_digits then
       seq (rd xd i) (\<lambda>a. seq (rd yd i) (\<lambda>b.
         case sub_step a b carry of (c, carry') \<Rightarrow>
           seq (wr z i c) (\<lambda>z'. sub_loop1 xd yd min_digits (i + 1) carry' z')))
     else Inr (i, carry, z))"
  by pat_completeness auto
termination
  by (relation "measure (\<lambda>(xd, yd, min_digits, i, carry, z). min_digits - i)") auto

declare sub_loop1.simps [simp del]

definition sub_carry_step :: "packed_BCD_pair \<Rightarrow> packed_BCD_pair \<times> bool" where
  "sub_carry_step a0 =
    (let a = a0 - 1;
         a' = (if a AND 0x0F = 0x0F then a - 0x06 else a);
         carry' = (a' AND 0xF0 = 0xF0);
         a'' = (if carry' then a' - 0x60 else a')
     in (a'', carry'))"

function sub_loop2 ::
    "packed_BCD_pair list option \<Rightarrow> nat \<Rightarrow> nat \<Rightarrow> bool
      \<Rightarrow> packed_BCD_pair list \<Rightarrow> fault + (nat \<times> bool \<times> packed_BCD_pair list)" where
  "sub_loop2 xd max_digits i carry z =
    (if carry \<and> i < max_digits then
       seq (rd xd i) (\<lambda>a0.
         case sub_carry_step a0 of (a, carry') \<Rightarrow>
           seq (wr z i a) (\<lambda>z'. sub_loop2 xd max_digits (i + 1) carry' z'))
     else Inr (i, carry, z))"
  by pat_completeness auto
termination
  by (relation "measure (\<lambda>(xd, max_digits, i, carry, z). max_digits - i)") auto

declare sub_loop2.simps [simp del]

text \<open>
  The closing loop of \<open>sub_bcd\<close>, \<open>while (--i != -1)\<close>: \<open>sub_trim z i\<close> looks at the
  indices \<open>i - 1\<close> down to \<open>0\<close> of \<open>z\<close> and returns the first nonzero byte's index.
\<close>

fun sub_trim :: "packed_BCD_pair list \<Rightarrow> nat \<Rightarrow> fault + nat option" where
  "sub_trim z 0 = Inr None"
| "sub_trim z (Suc i) =
     seq (rd (Some z) i) (\<lambda>b. if b \<noteq> 0 then Inr (Some i) else sub_trim z i)"

text \<open>The values of the enumeration \<open>comp_t\<close>, which \<open>sub_bcd\<close> stores in a \<open>signed char\<close>.\<close>

fun comp_code :: "comp_t \<Rightarrow> int" where
  "comp_code EQUAL_TO = 0"
| "comp_code GREATER_THAN = 1"
| "comp_code LESS_THAN = 2"
| "comp_code NO_COMP = 3"

text \<open>
  \<open>sub_digits\<close> is \<open>sub_bcd\<close> from the call of \<open>cmp_bcd\<close> on: both operands are finite,
  nonzero and of one sign.
\<close>

definition sub_digits :: "BCD_int \<Rightarrow> BCD_int \<Rightarrow> fault + BCD_int" where
  "sub_digits x y =
    seq (cmp_bcd x y) (\<lambda>cmp.
    if cmp = EQUAL_TO then Inr BCD_zero
    else
     let min_digits = min (bcd_digits x) (bcd_digits y);
         max_digits = max (bcd_digits x) (bcd_digits y) in
     seq (sub_loop1 (data x) (data y) min_digits 0 False (alloc max_digits))
       (\<lambda>(i, carry, z).
     let x' = (if bcd_digits x < bcd_digits y then y else x) in
     seq (sub_loop2 (data x') max_digits i carry z) (\<lambda>(i, carry, z).
     seq (if i < max_digits
          then seq (rd_range (data x') i (max_digits - i)) (\<lambda>rest. wr_range z i rest)
          else Inr z) (\<lambda>z.
     seq (sub_trim z i) (\<lambda>found.
       case found of
         None \<Rightarrow> Inr BCD_zero
       | Some k \<Rightarrow>
           seq (rd (Some z) k) (\<lambda>top. seq (rd (Some z) 0) (\<lambda>z0.
             Inr \<lparr> data = Some z, bcd_digits = k + 1,
                   decimal_digits = (if top AND 0xF0 \<noteq> 0 then 2 * (k + 1) else 2 * (k + 1) - 1),
                   negative = (comp_code cmp = - 1), zero_flag = False,
                   even_flag = (z0 mod 2 = 0), constant_flag = False, nan = False,
                   error = NON_ERR, orig_error = NON_ERR \<rparr>)))))))"

function add_bcd :: "BCD_int \<Rightarrow> BCD_int \<Rightarrow> fault + BCD_int"
     and sub_bcd :: "BCD_int \<Rightarrow> BCD_int \<Rightarrow> fault + BCD_int" where
  "add_bcd x y =
    (if nan x \<or> nan y then Inr (bcd_error ADD_NAN (if nan x then orig_error x else orig_error y))
     else if zero_flag x \<and> zero_flag y then Inr BCD_zero
     else if zero_flag x then copy_BCD_int y
     else if zero_flag y then copy_BCD_int x
     else if negative x \<noteq> negative y then seq (opp_bcd y True) (\<lambda>y'. sub_bcd x y')
     else add_digits x y)"
| "sub_bcd x y =
    (if nan x \<or> nan y then Inr (bcd_error SUB_NAN (if nan x then orig_error x else orig_error y))
     else if zero_flag x \<and> zero_flag y then Inr BCD_zero
     else if zero_flag x then opp_bcd y False
     else if zero_flag y then copy_BCD_int x
     else if negative x \<noteq> negative y then seq (opp_bcd y True) (\<lambda>y'. add_bcd x y')
     else sub_digits x y)"
  by pat_completeness auto
termination
  by (relation "measure (\<lambda>s. case s of
        Inl (x, y) \<Rightarrow> if negative x \<noteq> negative y then 1 else 0
      | Inr (x, y) \<Rightarrow> if negative x \<noteq> negative y then 1 else 0)")
     (auto simp: opp_bcd_def sign_bcd_def)

declare add_bcd.simps [simp del] sub_bcd.simps [simp del]

definition inc_bcd :: "BCD_int \<Rightarrow> fault + BCD_int" where
  "inc_bcd x = add_bcd x BCD_one"

definition dec_bcd :: "BCD_int \<Rightarrow> fault + BCD_int" where
  "dec_bcd x = sub_bcd x BCD_one"

subsection \<open>In-place variants\<close>

text \<open>
  An in-place operator computes the result, releases the old buffer of \<open>*x\<close> and stores
  the result in \<open>*x\<close>. The model returns the new content of \<open>*x\<close>.
\<close>

definition free_BCD_int :: "BCD_int \<Rightarrow> BCD_int" where
  "free_BCD_int x = (if error x \<noteq> IS_FREED \<and> \<not> constant_flag x
     then bcd_error IS_FREED IS_FREED else x)"

definition iadd_bcd :: "BCD_int \<Rightarrow> BCD_int \<Rightarrow> fault + BCD_int" where
  "iadd_bcd x y = add_bcd x y"

definition iinc_bcd :: "BCD_int \<Rightarrow> fault + BCD_int" where
  "iinc_bcd x = inc_bcd x"

definition isub_bcd :: "BCD_int \<Rightarrow> BCD_int \<Rightarrow> fault + BCD_int" where
  "isub_bcd x y = sub_bcd x y"

definition idec_bcd :: "BCD_int \<Rightarrow> fault + BCD_int" where
  "idec_bcd x = dec_bcd x"

subsection \<open>Multiplication by a power of ten\<close>

text \<open>
  The loop of the odd branch of \<open>mul_bcd_pow_10\<close>, from \<open>i\<close> up to \<open>x.bcd_digits - 1\<close>.
\<close>

function shl_loop ::
    "packed_BCD_pair list option \<Rightarrow> nat \<Rightarrow> nat \<Rightarrow> nat \<Rightarrow> packed_BCD_pair list
      \<Rightarrow> fault + packed_BCD_pair list" where
  "shl_loop xd n digit_diff i ret =
    (if i < n then
       seq (rd xd i) (\<lambda>cur.
       seq (wr ret (size_add i digit_diff) (push_bit 4 cur)) (\<lambda>ret.
       seq (rd xd (i - 1)) (\<lambda>prev.
       seq (wr_or ret (size_add i digit_diff) (drop_bit 4 prev)) (\<lambda>ret.
         shl_loop xd n digit_diff (i + 1) ret))))
     else Inr ret)"
  by pat_completeness auto
termination
  by (relation "measure (\<lambda>(xd, n, digit_diff, i, ret). n - i)") auto

declare shl_loop.simps [simp del]

definition mul_bcd_pow_10 :: "BCD_int \<Rightarrow> nat \<Rightarrow> fault + BCD_int" where
  "mul_bcd_pow_10 x tens =
    (if nan x then Inr (bcd_error SHIFT_NAN (orig_error x))
     else if zero_flag x then Inr BCD_zero
     else if tens = 0 then copy_BCD_int x
     else
       let dd = size_add (decimal_digits x) tens;
           n = size_add dd 1 div 2;
           ret = \<lparr> data = None, bcd_digits = n, decimal_digits = dd, negative = negative x,
                   zero_flag = False, even_flag = (even_flag x \<or> tens \<noteq> 0),
                   constant_flag = False, nan = False, error = NON_ERR, orig_error = NON_ERR \<rparr>;
           buf = alloc n
       in
       if tens mod 2 = 0 then
         let digit_diff = size_sub n (bcd_digits x) in
         seq (rd_range (data x) 0 (bcd_digits x)) (\<lambda>src.
         seq (wr_range buf digit_diff src) (\<lambda>buf.
           Inr (ret\<lparr>data := Some buf\<rparr>)))
       else
         let digit_diff = size_sub (size_sub n (bcd_digits x)) (dd mod 2) in
         seq (rd (data x) 0) (\<lambda>x0.
         seq (wr buf digit_diff (push_bit 4 x0)) (\<lambda>buf.
         seq (shl_loop (data x) (bcd_digits x) digit_diff 1 buf) (\<lambda>buf.
         seq (rd (data x) (size_sub (bcd_digits x) 1)) (\<lambda>top.
         seq (wr_or buf (size_add (bcd_digits x) digit_diff) (drop_bit 4 top)) (\<lambda>buf.
           Inr (ret\<lparr>data := Some buf\<rparr>)))))))"

definition shift_bcd_left :: "BCD_int \<Rightarrow> nat \<Rightarrow> fault + BCD_int" where
  "shift_bcd_left x tens = mul_bcd_pow_10 x tens"

definition imul_bcd_pow_10 :: "BCD_int \<Rightarrow> nat \<Rightarrow> fault + BCD_int" where
  "imul_bcd_pow_10 x tens = mul_bcd_pow_10 x tens"

subsection \<open>Division by a power of ten\<close>

function shr_loop ::
    "packed_BCD_pair list option \<Rightarrow> nat \<Rightarrow> nat \<Rightarrow> nat \<Rightarrow> packed_BCD_pair list
      \<Rightarrow> fault + packed_BCD_pair list" where
  "shr_loop ad n digit_diff i ret =
    (if i < n then
       seq (rd ad (size_add i digit_diff)) (\<lambda>cur.
       seq (wr_or ret (i - 1) (push_bit 4 cur)) (\<lambda>ret.
       seq (wr ret i (drop_bit 4 cur)) (\<lambda>ret.
         shr_loop ad n digit_diff (i + 1) ret)))
     else Inr ret)"
  by pat_completeness auto
termination
  by (relation "measure (\<lambda>(ad, n, digit_diff, i, ret). n - i)") auto

declare shr_loop.simps [simp del]

definition div_bcd_pow_10 :: "BCD_int \<Rightarrow> nat \<Rightarrow> fault + BCD_int" where
  "div_bcd_pow_10 a tens =
    (if nan a then Inr (bcd_error SHIFT_NAN (orig_error a))
     else if tens = 0 then copy_BCD_int a
     else if tens \<ge> decimal_digits a then Inr BCD_zero
     else
       let dd = decimal_digits a - tens;
           n = (dd + 1) div 2;
           ret = \<lparr> data = None, bcd_digits = n, decimal_digits = dd, negative = False,
                   zero_flag = False, even_flag = False, constant_flag = False, nan = False,
                   error = NON_ERR, orig_error = NON_ERR \<rparr>;
           buf = alloc n;
           digit_diff = size_sub (bcd_digits a) n
       in
       seq (if tens mod 2 = 0 then
              seq (rd_range (data a) digit_diff n) (\<lambda>src. wr_range buf 0 src)
            else
              seq (rd (data a) digit_diff) (\<lambda>a0.
              seq (wr buf 0 (drop_bit 4 a0)) (\<lambda>buf.
              seq (shr_loop (data a) n digit_diff 1 buf) (\<lambda>buf.
                if decimal_digits a mod 2 \<noteq> 0 then
                  seq (rd (data a) (size_add n digit_diff)) (\<lambda>hi.
                    wr_or buf (size_sub n 1) (push_bit 4 hi))
                else Inr buf)))) (\<lambda>buf.
       seq (rd (Some buf) 0) (\<lambda>r0.
         Inr (ret\<lparr>data := Some buf, even_flag := (r0 mod 2 = 0)\<rparr>))))"

definition shift_bcd_right :: "BCD_int \<Rightarrow> nat \<Rightarrow> fault + BCD_int" where
  "shift_bcd_right a tens = div_bcd_pow_10 a tens"

subsection \<open>Multiplication\<close>

definition mul_dig_pair :: "packed_BCD_pair \<Rightarrow> packed_BCD_pair \<Rightarrow> 16 word" where
  "mul_dig_pair ab cd =
    (let a = uint (drop_bit 4 ab); b = uint (ab AND 0xF);
         c = uint (drop_bit 4 cd); d = uint (cd AND 0xF)
     in word_of_int (100 * a * c + 10 * (a * d + b * c) + b * d))"

text \<open>The inner loop (over \<open>j\<close>) and the outer loop (over \<open>i\<close>) of \<open>mul_bcd\<close>.\<close>

function mul_inner ::
    "BCD_int \<Rightarrow> BCD_int \<Rightarrow> nat \<Rightarrow> nat \<Rightarrow> nat \<Rightarrow> BCD_int \<Rightarrow> fault + BCD_int" where
  "mul_inner x y i j pow_10 answer =
    (if j < bcd_digits y then
       seq (rd (data x) i) (\<lambda>ab. seq (rd (data y) j) (\<lambda>cd.
         let staging = mul_dig_pair ab cd in
         if staging = 0 then mul_inner x y i (j + 1) (pow_10 + 2) answer
         else
           seq (if pow_10 \<noteq> 0 then imul_bcd_pow_10 (new_BCD_int2 (ucast staging) False) pow_10
                else Inr (new_BCD_int2 (ucast staging) False)) (\<lambda>addend.
           seq (iadd_bcd answer addend) (\<lambda>answer.
             mul_inner x y i (j + 1) (pow_10 + 2) answer))))
     else Inr answer)"
  by pat_completeness auto
termination
  by (relation "measure (\<lambda>(x, y, i, j, pow_10, answer). bcd_digits y - j)") auto

declare mul_inner.simps [simp del]

function mul_outer :: "BCD_int \<Rightarrow> BCD_int \<Rightarrow> nat \<Rightarrow> nat \<Rightarrow> BCD_int \<Rightarrow> fault + BCD_int" where
  "mul_outer x y i ipow_10 answer =
    (if i < bcd_digits x then
       seq (mul_inner x y i 0 ipow_10 answer) (\<lambda>answer.
         mul_outer x y (i + 1) (ipow_10 + 2) answer)
     else Inr answer)"
  by pat_completeness auto
termination
  by (relation "measure (\<lambda>(x, y, i, ipow_10, answer). bcd_digits x - i)") auto

declare mul_outer.simps [simp del]

definition mul_bcd :: "BCD_int \<Rightarrow> BCD_int \<Rightarrow> fault + BCD_int" where
  "mul_bcd x y =
    (if nan x \<or> nan y then Inr (bcd_error MUL_NAN (if nan x then orig_error x else orig_error y))
     else if zero_flag x \<or> zero_flag y then Inr BCD_zero
     else seq (mul_outer x y 0 0 BCD_zero) (\<lambda>answer.
       Inr (answer\<lparr>negative := \<not> (negative x = negative y)\<rparr>)))"

definition imul_bcd :: "BCD_int \<Rightarrow> BCD_int \<Rightarrow> fault + BCD_int" where
  "imul_bcd x y = mul_bcd x y"

subsection \<open>Division and modulo\<close>

text \<open>
  The out-parameter \<open>mod\<close> of \<open>divmod_bcd\<close> is a pointer that callers may pass as
  \<open>NULL\<close>. \<open>store_mod mod_ok v\<close> is the assignment \<open>*mod = v\<close>, where \<open>mod_ok\<close> says that
  the pointer is not \<open>NULL\<close>; the content of \<open>*mod\<close> after the call is returned beside the
  quotient (\<open>None\<close> when there is no such object).
\<close>

text \<open>
  The test \<open>v.decimal_digits == 1 && v.data[0] == 1\<close>, which \<open>divmod_bcd\<close> makes on its
  dividend and \<open>mod_bcd\<close> on its divisor (and \<open>factorial_bcd\<close> on its argument).
\<close>

definition magnitude_one :: "BCD_int \<Rightarrow> fault + bool" where
  "magnitude_one v = (if decimal_digits v = 1 then seq (rd (data v) 0) (\<lambda>v0. Inr (v0 = 1)) else Inr False)"

definition store_mod :: "bool \<Rightarrow> BCD_int \<Rightarrow> fault + BCD_int option" where
  "store_mod mod_ok v = (if mod_ok then Inr (Some v) else Inl NULL_DEREF)"

text \<open>
  The loop of \<open>divmod_bcd\<close> on the local variables \<open>tmp\<close> and \<open>div\<close> (here \<open>dv\<close>). It need
  not terminate on every input, so it is a partial function: \<open>None\<close> is divergence.
\<close>

partial_function (option) divmod_loop ::
    "BCD_int \<Rightarrow> BCD_int \<Rightarrow> BCD_int \<Rightarrow> BCD_int \<Rightarrow> (fault + BCD_int \<times> BCD_int) option" where
  "divmod_loop x y tmp dv =
    (case (if zero_flag x then Inr False
           else seq (cmp_bcd tmp y) (\<lambda>c. Inr (c \<noteq> LESS_THAN))) of
       Inl e \<Rightarrow> Some (Inl e)
     | Inr go \<Rightarrow>
        if go then
          (case isub_bcd tmp y of
             Inl e \<Rightarrow> Some (Inl e)
           | Inr tmp' \<Rightarrow>
              (case iinc_bcd dv of
                 Inl e \<Rightarrow> Some (Inl e)
               | Inr dv' \<Rightarrow> divmod_loop x y tmp' dv'))
        else Some (Inr (tmp, dv)))"

declare divmod_loop.simps [code]

text \<open>The part of \<open>divmod_bcd\<close> after its loop.\<close>

definition divmod_finish ::
    "bool \<Rightarrow> bool \<Rightarrow> BCD_int \<Rightarrow> bool \<Rightarrow> BCD_int \<Rightarrow> BCD_int
      \<Rightarrow> fault + BCD_int \<times> BCD_int option" where
  "divmod_finish x_negative y_negative y mod_ok tmp dv =
    (let dv = dv\<lparr>negative := (x_negative \<noteq> y_negative)\<rparr> in
     if negative dv then
       seq (if \<not> zero_flag tmp then idec_bcd dv else Inr dv) (\<lambda>dv.
       seq (if mod_ok then seq (sub_bcd y tmp) (\<lambda>m. Inr (Some m)) else Inr None) (\<lambda>cell.
         case cell of
           None \<Rightarrow> Inl NULL_DEREF
         | Some m \<Rightarrow> Inr (dv, Some (m\<lparr>negative := y_negative\<rparr>))))
     else if mod_ok then
       seq (sign_bcd tmp True y_negative) (\<lambda>m. Inr (dv, Some m))
     else Inr (dv, None))"

definition divmod_bcd ::
    "BCD_int \<Rightarrow> BCD_int \<Rightarrow> bool \<Rightarrow> (fault + BCD_int \<times> BCD_int option) option" where
  "divmod_bcd x y mod_ok =
    (if nan x \<or> nan y \<or> zero_flag y then
       let err = (if zero_flag y then DIV_ZERO else DIV_NAN);
           orig = (if nan x then orig_error x else if nan y then orig_error y else err)
       in Some (seq (store_mod mod_ok (bcd_error err orig)) (\<lambda>cell.
            Inr (bcd_error err orig, cell)))
     else if zero_flag x then
       Some (seq (store_mod mod_ok BCD_zero) (\<lambda>cell. Inr (BCD_zero, cell)))
     else
       case magnitude_one x of
         Inl e \<Rightarrow> Some (Inl e)
       | Inr is_one \<Rightarrow>
          if is_one then
            Some (seq (store_mod mod_ok BCD_zero) (\<lambda>cell.
                  seq (copy_BCD_int x) (\<lambda>c.
                  seq (sign_bcd c True (negative x \<noteq> negative y)) (\<lambda>q. Inr (q, cell)))))
          else
           (case copy_BCD_int x of
              Inl e \<Rightarrow> Some (Inl e)
            | Inr tmp \<Rightarrow>
               (case divmod_loop x (y\<lparr>negative := False\<rparr>) (tmp\<lparr>negative := False\<rparr>) BCD_zero of
                  None \<Rightarrow> None
                | Some (Inl e) \<Rightarrow> Some (Inl e)
                | Some (Inr (tmp, dv)) \<Rightarrow>
                    Some (divmod_finish (negative x) (negative y) (y\<lparr>negative := False\<rparr>)
                            mod_ok tmp dv))))"

definition div_bcd :: "BCD_int \<Rightarrow> BCD_int \<Rightarrow> (fault + BCD_int) option" where
  "div_bcd x y = map_option (\<lambda>r. seq r (\<lambda>(q, cell). Inr q)) (divmod_bcd x y False)"

definition mod_bcd :: "BCD_int \<Rightarrow> BCD_int \<Rightarrow> (fault + BCD_int) option" where
  "mod_bcd x y =
    (case magnitude_one y of
       Inl e \<Rightarrow> Some (Inl e)
     | Inr is_one \<Rightarrow>
        if is_one then Some (Inr BCD_zero)
        else map_option (\<lambda>r. seq r (\<lambda>(q, cell).
               case cell of None \<Rightarrow> Inl NULL_DEREF | Some m \<Rightarrow> Inr m))
             (divmod_bcd x y True))"

subsection \<open>Power and factorial\<close>

partial_function (option) pow_loop ::
    "BCD_int \<Rightarrow> BCD_int \<Rightarrow> BCD_int \<Rightarrow> (fault + BCD_int) option" where
  "pow_loop x tmp answer =
    (if \<not> (zero_flag tmp \<or> nan tmp) then
       (case imul_bcd answer x of
          Inl e \<Rightarrow> Some (Inl e)
        | Inr answer' \<Rightarrow>
           (case idec_bcd tmp of
              Inl e \<Rightarrow> Some (Inl e)
            | Inr tmp' \<Rightarrow> pow_loop x tmp' answer'))
     else Some (Inr answer))"

declare pow_loop.simps [code]

definition pow_bcd :: "BCD_int \<Rightarrow> BCD_int \<Rightarrow> (fault + BCD_int) option" where
  "pow_bcd x y =
    (if nan x \<or> nan y \<or> negative y then
       let err = (if negative y then POW_NEG else POW_NAN);
           orig = (if nan x then orig_error x else if nan y then orig_error y else err)
       in Some (Inr (bcd_error err orig))
     else
       case copy_BCD_int y of
         Inl e \<Rightarrow> Some (Inl e)
       | Inr tmp \<Rightarrow> pow_loop x tmp BCD_one)"

partial_function (option) factorial_loop ::
    "BCD_int \<Rightarrow> BCD_int \<Rightarrow> (fault + BCD_int) option" where
  "factorial_loop i ret =
    (if \<not> zero_flag i then
       (case imul_bcd ret i of
          Inl e \<Rightarrow> Some (Inl e)
        | Inr ret' \<Rightarrow>
           (case idec_bcd i of
              Inl e \<Rightarrow> Some (Inl e)
            | Inr i' \<Rightarrow> factorial_loop i' ret'))
     else Some (Inr ret))"

declare factorial_loop.simps [code]

definition factorial_bcd :: "BCD_int \<Rightarrow> (fault + BCD_int) option" where
  "factorial_bcd x =
    (if nan x then Some (Inr (bcd_error FACT_NAN (orig_error x)))
     else if negative x then Some (Inr (bcd_error FACT_NEG FACT_NEG))
     else
       case (if zero_flag x then Inr True else magnitude_one x) of
         Inl e \<Rightarrow> Some (Inl e)
       | Inr trivial \<Rightarrow>
          if trivial then Some (Inr BCD_one)
          else
           (case dec_bcd x of
              Inl e \<Rightarrow> Some (Inl e)
            | Inr i \<Rightarrow>
               (case copy_BCD_int x of
                  Inl e \<Rightarrow> Some (Inl e)
                | Inr ret \<Rightarrow> factorial_loop i ret)))"

subsection \<open>Conversion to C integers\<close>

text \<open>
  \<open>uintmax_t\<close> and \<open>intmax_t\<close> are 64-bit words. The macro \<open>POW_OF_MAX_POW_10_64\<close> comes
  from a header that is not part of the sources at hand; the functions that use it take
  its value as their first argument.
\<close>

fun cuint_loop :: "packed_BCD_pair list option \<Rightarrow> nat \<Rightarrow> nat \<Rightarrow> 64 word \<Rightarrow> 64 word \<Rightarrow> fault + 64 word" where
  "cuint_loop xd 0 i pow_10 answer = Inr answer"
| "cuint_loop xd (Suc k) i pow_10 answer =
     seq (rd xd i) (\<lambda>d.
       cuint_loop xd k (i + 1) (pow_10 * 100)
         (answer + pow_10 * (ucast (d AND 0x0F) + 10 * ucast (drop_bit 4 d))))"

definition abs_bcd_cuint :: "nat \<Rightarrow> BCD_int \<Rightarrow> fault + 64 word" where
  "abs_bcd_cuint POW_OF_MAX_POW_10_64 x =
    (if nan x \<or> decimal_digits x > POW_OF_MAX_POW_10_64 + 2 then Inr (- 1)
     else
       seq (cuint_loop (data x) (bcd_digits x) 0 1 0) (\<lambda>answer.
       seq (rd (data x) 0) (\<lambda>x0.
         if ucast (x0 mod 0xF) \<noteq> answer mod 10 then Inr (- 1) else Inr answer)))"

definition INTMAX_MIN :: "64 word" where
  "INTMAX_MIN = 0x8000000000000000"

definition INTMAX_MAX :: "64 word" where
  "INTMAX_MAX = 0x7FFFFFFFFFFFFFFF"

definition val_bcd_cint :: "nat \<Rightarrow> BCD_int \<Rightarrow> fault + 64 word" where
  "val_bcd_cint POW_OF_MAX_POW_10_64 x =
    (if nan x \<or> decimal_digits x > POW_OF_MAX_POW_10_64 + 1 then Inr INTMAX_MIN
     else
       seq (abs_bcd_cuint POW_OF_MAX_POW_10_64 x) (\<lambda>answer.
         if answer > INTMAX_MAX then Inr INTMAX_MIN
         else Inr (if negative x then - answer else answer)))"

text \<open>
  \<open>cmp_bcd_cuint\<close> compares a value with a C unsigned integer. Unlike \<open>cmp_bcd\<close> it looks
  at the zero flag before the sign flag.
\<close>

definition cmp_bcd_cuint :: "nat \<Rightarrow> BCD_int \<Rightarrow> 64 word \<Rightarrow> fault + comp_t" where
  "cmp_bcd_cuint POW_OF_MAX_POW_10_64 x y =
    (if nan x then Inr NO_COMP
     else if zero_flag x then Inr (if y \<noteq> 0 then GREATER_THAN else EQUAL_TO)
     else if negative x then Inr LESS_THAN
     else if decimal_digits x > POW_OF_MAX_POW_10_64 + 2 then Inr GREATER_THAN
     else
       seq (abs_bcd_cuint POW_OF_MAX_POW_10_64 x) (\<lambda>x_prime.
         if x_prime = - 1 then Inr NO_COMP
         else if x_prime > y then Inr GREATER_THAN
         else if x_prime < y then Inr LESS_THAN
         else Inr EQUAL_TO))"

subsection \<open>Text rendering\<close>

text \<open>
  \<open>print_bcd\<close> writes to the standard output; the model returns the characters written.
  \<open>hex_x\<close> is the conversion \<open>%x\<close> of a byte and \<open>hex_02x\<close> the conversion \<open>%02x\<close>.
\<close>

definition hex_digit :: "packed_BCD_pair \<Rightarrow> char" where
  "hex_digit n = ''0123456789abcdef'' ! unat n"

definition hex_02x :: "packed_BCD_pair \<Rightarrow> string" where
  "hex_02x b = [hex_digit (drop_bit 4 b), hex_digit (b AND 0xF)]"

definition hex_x :: "packed_BCD_pair \<Rightarrow> string" where
  "hex_x b = (if b < 0x10 then [hex_digit b] else hex_02x b)"

fun print_rest :: "packed_BCD_pair list option \<Rightarrow> nat \<Rightarrow> fault + string" where
  "print_rest xd 0 = Inr []"
| "print_rest xd (Suc i) =
     seq (rd xd i) (\<lambda>b. seq (print_rest xd i) (\<lambda>s. Inr (hex_02x b @ s)))"

definition print_bcd :: "BCD_int \<Rightarrow> fault + string" where
  "print_bcd x =
    (if nan x then Inr ''NaN''
     else if zero_flag x then Inr ''0''
     else
       let i = size_sub (bcd_digits x) 1 in
       seq (rd (data x) i) (\<lambda>top.
       seq (print_rest (data x) i) (\<lambda>s.
         Inr ((if negative x then ''-'' else []) @ hex_x top @ s))))"

subsection \<open>Truth tests\<close>

definition bool_bcd :: "BCD_int \<Rightarrow> bool" where
  "bool_bcd x = zero_flag x"

definition not_bcd :: "BCD_int \<Rightarrow> bool" where
  "not_bcd x = (\<not> zero_flag x)"

section \<open>The integer a value denotes, and canonical form\<close>

text \<open>
  A digit-pair byte denotes \<open>10 * high nibble + low nibble\<close>; the bytes
  \<open>data[0 .. bcd_digits - 1]\<close> denote a magnitude in base one hundred, least significant
  byte first; the sign flag negates it.
\<close>

definition pair_val :: "packed_BCD_pair \<Rightarrow> nat" where
  "pair_val b = 10 * unat (drop_bit 4 b) + unat (b AND 0xF)"

fun mag_of :: "packed_BCD_pair list \<Rightarrow> nat" where
  "mag_of [] = 0"
| "mag_of (b # bs) = pair_val b + 100 * mag_of bs"

definition digits_of :: "BCD_int \<Rightarrow> packed_BCD_pair list" where
  "digits_of x = (case data x of None \<Rightarrow> [] | Some bs \<Rightarrow> take (bcd_digits x) bs)"

definition bcd_val :: "BCD_int \<Rightarrow> int" where
  "bcd_val x = (if negative x then - int (mag_of (digits_of x)) else int (mag_of (digits_of x)))"

text \<open>
  Canonical form of a finite value: the \<open>bcd_digits\<close> bytes lie inside the buffer, each
  holds two decimal digits, the most significant one is not zero, the decimal-digit count
  is twice the byte count, less one when the top nibble of the most significant byte is
  zero, and the zero flag is set exactly when there is no byte.
\<close>

definition valid_pair :: "packed_BCD_pair \<Rightarrow> bool" where
  "valid_pair b = (drop_bit 4 b \<le> 9 \<and> b AND 0xF \<le> 9)"

definition readable :: "BCD_int \<Rightarrow> bool" where
  "readable x = (case data x of None \<Rightarrow> bcd_digits x = 0 | Some bs \<Rightarrow> bcd_digits x \<le> length bs)"

definition canonical :: "BCD_int \<Rightarrow> bool" where
  "canonical x =
    (\<not> nan x \<and> readable x \<and> list_all valid_pair (digits_of x) \<and>
     (bcd_digits x = 0 \<or> last (digits_of x) \<noteq> 0) \<and>
     decimal_digits x =
       (if bcd_digits x = 0 then 0
        else if last (digits_of x) AND 0xF0 = 0 then 2 * bcd_digits x - 1
        else 2 * bcd_digits x) \<and>
     zero_flag x = (bcd_digits x = 0))"

text \<open>
  \<open>in_buffer\<close>: a value with at least one digit byte, all of them inside its buffer;
  \<open>acc_ok\<close>: what holds of the accumulator of \<open>mul_bcd\<close> throughout (finite, not
  negative, and flagged zero, as the initial \<open>BCD_zero\<close> is, or with its bytes in its
  buffer); \<open>order_of\<close>: the order of two integers as a \<open>comp_t\<close>.
\<close>

definition in_buffer :: "BCD_int \<Rightarrow> bool" where
  "in_buffer a = (case data a of
      None \<Rightarrow> False
    | Some bs \<Rightarrow> 1 \<le> bcd_digits a \<and> bcd_digits a \<le> length bs)"

definition acc_ok :: "BCD_int \<Rightarrow> bool" where
  "acc_ok a = (\<not> nan a \<and> \<not> negative a \<and> (zero_flag a \<or> in_buffer a))"

definition order_of :: "int \<Rightarrow> int \<Rightarrow> comp_t" where
  "order_of a b = (if a < b then LESS_THAN else if b < a then GREATER_THAN else EQUAL_TO)"

section \<open>Chains of operations\<close>

text \<open>
  To speak of a sequence of arithmetic operations applied to one value: an operation with
  its other operand, applied to the left operand \<open>x\<close>, and a list of them applied in turn
  to the running result. A fault or a divergence ends the chain.
\<close>

datatype arith_op =
    ADD BCD_int | SUB BCD_int | MUL BCD_int | DIVMOD BCD_int | POW BCD_int
  | FACTORIAL | SHIFT_LEFT nat | SHIFT_RIGHT nat

fun apply_op :: "arith_op \<Rightarrow> BCD_int \<Rightarrow> (fault + BCD_int) option" where
  "apply_op (ADD y) x = Some (add_bcd x y)"
| "apply_op (SUB y) x = Some (sub_bcd x y)"
| "apply_op (MUL y) x = Some (mul_bcd x y)"
| "apply_op (DIVMOD y) x = map_option (\<lambda>r. seq r (\<lambda>(q, cell). Inr q)) (divmod_bcd x y True)"
| "apply_op (POW y) x = pow_bcd x y"
| "apply_op FACTORIAL x = factorial_bcd x"
| "apply_op (SHIFT_LEFT tens) x = Some (mul_bcd_pow_10 x tens)"
| "apply_op (SHIFT_RIGHT tens) x = Some (div_bcd_pow_10 x tens)"

fun apply_ops :: "arith_op list \<Rightarrow> BCD_int \<Rightarrow> (fault + BCD_int) option" where
  "apply_ops [] x = Some (Inr x)"
| "apply_ops (f # fs) x =
     (case apply_op f x of
        Some (Inr r) \<Rightarrow> apply_ops fs r
      | Some (Inl e) \<Rightarrow> Some (Inl e)
      | None \<Rightarrow> None)"

section \<open>Properties\<close>

subsection \<open>Evaluation of the constructors at small numbers\<close>

lemma pack_digits_numeral:
  "pack_digits (numeral k) a =
     ucast (push_bit 4 ((a mod 100) div 10) OR (a mod 10)) # pack_digits (pred_numeral k) (a div 100)"
  by (simp add: numeral_eq_Suc)

lemma pack_digits_1:
  "pack_digits 1 a = [ucast (push_bit 4 ((a mod 100) div 10) OR (a mod 10))]"
  by (simp add: One_nat_def del: One_nat_def[symmetric])

lemmas new_BCD_int2_eval =
  new_BCD_int2_def ceil_log10.simps Let_def pack_digits_numeral pack_digits_1

lemma new_BCD_int2_1:
  "new_BCD_int2 1 neg = \<lparr> data = Some [0x01], bcd_digits = 1, decimal_digits = 1,
     negative = neg, zero_flag = False, even_flag = False, constant_flag = False, nan = False,
     error = NON_ERR, orig_error = NON_ERR \<rparr>"
  by (simp add: new_BCD_int2_eval)

lemma new_BCD_int2_5:
  "new_BCD_int2 5 neg = \<lparr> data = Some [0x05], bcd_digits = 1, decimal_digits = 1,
     negative = neg, zero_flag = False, even_flag = False, constant_flag = False, nan = False,
     error = NON_ERR, orig_error = NON_ERR \<rparr>"
  by (simp add: new_BCD_int2_eval)

lemma new_BCD_int2_12:
  "new_BCD_int2 12 neg = \<lparr> data = Some [0x12], bcd_digits = 1, decimal_digits = 2,
     negative = neg, zero_flag = False, even_flag = True, constant_flag = False, nan = False,
     error = NON_ERR, orig_error = NON_ERR \<rparr>"
  by (simp add: new_BCD_int2_eval)

lemma new_BCD_int2_123:
  "new_BCD_int2 123 neg = \<lparr> data = Some [0x23, 0x01], bcd_digits = 2, decimal_digits = 3,
     negative = neg, zero_flag = False, even_flag = False, constant_flag = False, nan = False,
     error = NON_ERR, orig_error = NON_ERR \<rparr>"
  by (simp add: new_BCD_int2_eval)

subsection \<open>Division\<close>

lemma new_BCD_int2_2:
  "new_BCD_int2 2 neg = \<lparr> data = Some [0x02], bcd_digits = 1, decimal_digits = 1,
     negative = neg, zero_flag = False, even_flag = True, constant_flag = False, nan = False,
     error = NON_ERR, orig_error = NON_ERR \<rparr>"
  by (simp add: new_BCD_int2_eval)

lemma new_BCD_int2_6:
  "new_BCD_int2 6 neg = \<lparr> data = Some [0x06], bcd_digits = 1, decimal_digits = 1,
     negative = neg, zero_flag = False, even_flag = True, constant_flag = False, nan = False,
     error = NON_ERR, orig_error = NON_ERR \<rparr>"
  by (simp add: new_BCD_int2_eval)

lemma new_BCD_int2_7:
  "new_BCD_int2 7 neg = \<lparr> data = Some [0x07], bcd_digits = 1, decimal_digits = 1,
     negative = neg, zero_flag = False, even_flag = False, constant_flag = False, nan = False,
     error = NON_ERR, orig_error = NON_ERR \<rparr>"
  by (simp add: new_BCD_int2_eval)

lemma new_BCD_int2_28:
  "new_BCD_int2 28 neg = \<lparr> data = Some [0x28], bcd_digits = 1, decimal_digits = 2,
     negative = neg, zero_flag = False, even_flag = True, constant_flag = False, nan = False,
     error = NON_ERR, orig_error = NON_ERR \<rparr>"
  by (simp add: new_BCD_int2_eval)

text \<open>The two scenarios \<open>divmod(28, 5) = (5, 3)\<close> and \<open>divmod(-7, 2) = (-4, 1)\<close> hold.\<close>

lemma divmod_bcd_28_5:
  "case divmod_bcd (new_BCD_int2 28 False) (new_BCD_int2 5 False) True of
     Some (Inr (q, Some r)) \<Rightarrow> bcd_val q = 5 \<and> bcd_val r = 3
   | _ \<Rightarrow> False"
  unfolding new_BCD_int2_28 new_BCD_int2_5 by code_simp

lemma divmod_bcd_minus_7_2:
  "case divmod_bcd (new_BCD_int2 7 True) (new_BCD_int2 2 False) True of
     Some (Inr (q, Some r)) \<Rightarrow> bcd_val q = - 4 \<and> bcd_val r = 1
   | _ \<Rightarrow> False"
  unfolding new_BCD_int2_7 new_BCD_int2_2 by code_simp

text \<open>
  A second way the identity fails: operands of different signs and an exact quotient.
  \<open>divmod(-6, 2)\<close> is \<open>(-3, 2)\<close>, the remainder being \<open>sub_bcd(y, tmp)\<close> with \<open>tmp = 0\<close>.
\<close>

lemma divmod_bcd_minus_6_2:
  "case divmod_bcd (new_BCD_int2 6 True) (new_BCD_int2 2 False) True of
     Some (Inr (q, Some r)) \<Rightarrow> bcd_val q = - 3 \<and> bcd_val r = 2
   | _ \<Rightarrow> False"
  unfolding new_BCD_int2_6 new_BCD_int2_2 by code_simp

text \<open>
  C1. The identity \<open>div(x, y) * y + mod(x, y) = x\<close> fails at \<open>x = 1\<close>, \<open>y = 5\<close>:
  \<open>divmod_bcd\<close> tests its dividend, not its divisor, for magnitude one, and answers
  quotient \<open>1\<close> and remainder \<open>0\<close>, so that \<open>1 * 5 + 0 = 5\<close> and not \<open>1\<close>.
\<close>

theorem divmod_bcd_dividend_one_breaks_identity:
  "divmod_bcd (new_BCD_int2 1 False) (new_BCD_int2 5 False) True
     = Some (Inr (new_BCD_int2 1 False, Some BCD_zero))
   \<and> bcd_val (new_BCD_int2 1 False) * bcd_val (new_BCD_int2 5 False) + bcd_val BCD_zero = 5
   \<and> bcd_val (new_BCD_int2 1 False) = 1"
  unfolding new_BCD_int2_1 new_BCD_int2_5 by code_simp

text \<open>
  With a remainder pointer, division by a value flagged zero returns, and stores in the
  remainder, the Error value tagged \<open>DIV_ZERO\<close>; so does \<open>mod_bcd\<close>. Without one, every
  such division is a store through the null pointer.
\<close>

lemma divmod_bcd_by_zero:
  assumes "zero_flag y"
  shows "\<exists>e. divmod_bcd x y True = Some (Inr (e, Some e)) \<and> nan e \<and> error e = DIV_ZERO"
  using assms by (simp add: divmod_bcd_def store_mod_def Let_def bcd_error_def)

lemma mod_bcd_by_zero:
  assumes "zero_flag y" "magnitude_one y = Inr False"
  shows "\<exists>e. mod_bcd x y = Some (Inr e) \<and> nan e \<and> error e = DIV_ZERO"
  using assms by (simp add: mod_bcd_def divmod_bcd_def store_mod_def Let_def bcd_error_def)

lemma div_bcd_by_zero:
  assumes "zero_flag y"
  shows "div_bcd x y = Some (Inl NULL_DEREF)"
  using assms by (simp add: div_bcd_def divmod_bcd_def store_mod_def Let_def)

text \<open>
  C3. \<open>div_bcd\<close> passes \<open>NULL\<close> for the remainder, and \<open>divmod_bcd\<close> stores the
  divide-by-zero error through that pointer before it returns: \<open>div_bcd(5, 0)\<close> is a
  store through a null pointer, not a returned Error value.
\<close>

theorem div_bcd_by_zero_null_deref:
  "div_bcd (new_BCD_int2 5 False) BCD_zero = Some (Inl NULL_DEREF)"
  unfolding new_BCD_int2_5 by code_simp

subsection \<open>Canonical form and the round trip through text\<close>

text \<open>
  C4. \<open>BCD_from_bytes\<close> on the single byte \<open>0x12\<close> returns one byte with
  \<open>decimal_digits = 1\<close>, where canonical form has \<open>2\<close>: the constructor counts one
  decimal digit too few, and its result is not canonical.
\<close>

theorem BCD_from_bytes_digit_count_off_by_one:
  "BCD_from_bytes (Some [0x12]) 1 False True =
     Inr \<lparr> data = Some [0x12], bcd_digits = 1, decimal_digits = 1,
       negative = False, zero_flag = False, even_flag = True, constant_flag = False, nan = False,
       error = NON_ERR, orig_error = NON_ERR \<rparr>
   \<and> \<not> canonical \<lparr> data = Some [0x12], bcd_digits = 1, decimal_digits = 1,
       negative = False, zero_flag = False, even_flag = True, constant_flag = False, nan = False,
       error = NON_ERR, orig_error = NON_ERR \<rparr>"
  by code_simp

text \<open>
  C6. The canonical value \<open>5\<close> prints as \<open>5\<close>; \<open>BCD_from_ascii\<close> on that text gives a
  value that \<open>cmp_bcd\<close> finds less than \<open>5\<close>, not equal to it (its decimal-digit count
  is \<open>0\<close>, from the miscount of \<open>BCD_from_bytes\<close>).
\<close>

theorem round_trip_digit_count_mismatch:
  "canonical (new_BCD_int2 5 False)
   \<and> print_bcd (new_BCD_int2 5 False) = Inr ''5''
   \<and> seq (BCD_from_ascii (Some ''5'') 1 False) (\<lambda>y. cmp_bcd y (new_BCD_int2 5 False))
       = Inr LESS_THAN"
  unfolding new_BCD_int2_5 by code_simp

subsection \<open>Conversion to C integers\<close>

lemma cuint_loop_12: "cuint_loop (Some [0x12]) 1 0 1 0 = Inr 12"
  by code_simp

lemma low_byte_check_12: "(ucast ((0x12 :: 8 word) mod 0xF) :: 64 word) \<noteq> 12 mod 10"
  by code_simp

text \<open>
  C7. The canonical value \<open>12\<close> fits every native range, yet \<open>abs_bcd_cuint\<close> returns
  the sentinel \<open>-1\<close> (the maximum unsigned value) and \<open>val_bcd_cint\<close> the sentinel
  \<open>INTMAX_MIN\<close>: the closing check takes the low byte modulo \<open>0xF\<close>, and \<open>0x12 % 0xF = 3\<close>
  differs from the last digit \<open>2\<close>. This holds whatever the value \<open>p\<close> of
  \<open>POW_OF_MAX_POW_10_64\<close>.
\<close>

theorem abs_bcd_cuint_rejects_twelve:
  "canonical (new_BCD_int2 12 False) \<and> bcd_val (new_BCD_int2 12 False) = 12
   \<and> abs_bcd_cuint p (new_BCD_int2 12 False) = Inr (- 1)
   \<and> val_bcd_cint p (new_BCD_int2 12 False) = Inr INTMAX_MIN"
proof -
  have c: "canonical (new_BCD_int2 12 False)" "bcd_val (new_BCD_int2 12 False) = 12"
    unfolding new_BCD_int2_12 by code_simp+
  have a: "abs_bcd_cuint p (new_BCD_int2 12 False) = Inr (- 1)"
    using low_byte_check_12
    by (simp add: abs_bcd_cuint_def new_BCD_int2_12 cuint_loop_12 rd_def)
  have m: "(- 1 :: 64 word) > INTMAX_MAX" by (simp add: INTMAX_MAX_def)
  have v: "val_bcd_cint p (new_BCD_int2 12 False) = Inr INTMAX_MIN"
    using m by (simp add: val_bcd_cint_def a)
  show ?thesis using c a v by simp
qed

subsection \<open>Error operands\<close>

lemma apply_op_nan:
  assumes "nan x"
  shows "\<exists>r. apply_op f x = Some (Inr r) \<and> nan r \<and> orig_error r = orig_error x"
  using assms
  by (cases f)
     (auto simp: add_bcd.simps sub_bcd.simps mul_bcd_def divmod_bcd_def pow_bcd_def
        factorial_bcd_def mul_bcd_pow_10_def div_bcd_pow_10_def store_mod_def bcd_error_def
        Let_def)

lemma apply_ops_nan:
  assumes "nan x"
  shows "\<exists>r. apply_ops fs x = Some (Inr r) \<and> nan r \<and> orig_error r = orig_error x"
  using assms
proof (induction fs arbitrary: x)
  case Nil
  then show ?case by simp
next
  case (Cons f fs)
  from apply_op_nan[OF Cons.prems, of f] obtain r
    where r: "apply_op f x = Some (Inr r)" "nan r" "orig_error r = orig_error x"
    by blast
  from Cons.IH[OF r(2)] r show ?case by simp
qed

text \<open>
  C2, as the code has it. For \<open>add_bcd\<close>, \<open>sub_bcd\<close>, \<open>mul_bcd\<close>, \<open>divmod_bcd\<close> (given
  a remainder pointer), \<open>pow_bcd\<close>, \<open>factorial_bcd\<close>, \<open>mul_bcd_pow_10\<close> and
  \<open>div_bcd_pow_10\<close>, and for \<open>mod_bcd\<close> when its divisor does not pass the test for
  magnitude one: an Error operand gives the Error value whose original-error tag is that
  of the first Error operand and whose current-error tag is the operation's on-error code,
  except that division tags \<open>DIV_ZERO\<close> when the divisor's zero flag is set and \<open>pow_bcd\<close>
  tags \<open>POW_NEG\<close> when the exponent's sign flag is set. Any chain of these operations
  applied to an Error value ends in an Error value with the same original-error tag.
\<close>

theorem error_operand_propagates:
  assumes "nan x \<or> nan y"
  shows "add_bcd x y = Inr (bcd_error ADD_NAN (if nan x then orig_error x else orig_error y))
    \<and> sub_bcd x y = Inr (bcd_error SUB_NAN (if nan x then orig_error x else orig_error y))
    \<and> mul_bcd x y = Inr (bcd_error MUL_NAN (if nan x then orig_error x else orig_error y))
    \<and> divmod_bcd x y True =
        Some (Inr (bcd_error (if zero_flag y then DIV_ZERO else DIV_NAN)
                     (if nan x then orig_error x else orig_error y),
                   Some (bcd_error (if zero_flag y then DIV_ZERO else DIV_NAN)
                     (if nan x then orig_error x else orig_error y))))
    \<and> (magnitude_one y = Inr False \<longrightarrow> mod_bcd x y =
        Some (Inr (bcd_error (if zero_flag y then DIV_ZERO else DIV_NAN)
                     (if nan x then orig_error x else orig_error y))))
    \<and> pow_bcd x y =
        Some (Inr (bcd_error (if negative y then POW_NEG else POW_NAN)
                     (if nan x then orig_error x else orig_error y)))
    \<and> (nan x \<longrightarrow>
          factorial_bcd x = Some (Inr (bcd_error FACT_NAN (orig_error x)))
        \<and> mul_bcd_pow_10 x tens = Inr (bcd_error SHIFT_NAN (orig_error x))
        \<and> div_bcd_pow_10 x tens = Inr (bcd_error SHIFT_NAN (orig_error x))
        \<and> (\<exists>r. apply_ops fs x = Some (Inr r) \<and> nan r \<and> orig_error r = orig_error x))"
  using assms apply_ops_nan[of x fs]
  by (auto simp: add_bcd.simps sub_bcd.simps mul_bcd_def divmod_bcd_def mod_bcd_def pow_bcd_def
      factorial_bcd_def mul_bcd_pow_10_def div_bcd_pow_10_def store_mod_def Let_def)

theorem error_operand_propagates_witness:
  "nan BCD_nan
   \<and> add_bcd (new_BCD_int2 5 False) BCD_nan = Inr (bcd_error ADD_NAN ORIG_NAN)
   \<and> mul_bcd (new_BCD_int2 5 False) BCD_nan = Inr (bcd_error MUL_NAN ORIG_NAN)
   \<and> mod_bcd (new_BCD_int2 5 False) BCD_nan = Some (Inr (bcd_error DIV_NAN ORIG_NAN))
   \<and> pow_bcd (new_BCD_int2 5 False) BCD_nan = Some (Inr (bcd_error POW_NAN ORIG_NAN))"
proof -
  have n: "nan (new_BCD_int2 5 False) \<or> nan BCD_nan" by (simp add: BCD_nan_def)
  have u: "magnitude_one BCD_nan = Inr False" by (simp add: magnitude_one_def BCD_nan_def)
  show ?thesis
    using error_operand_propagates[OF n] u
    by (simp add: BCD_nan_def new_BCD_int2_5)
qed

text \<open>
  The claim as written fails where an Error dividend meets a zero divisor: the
  current-error tag is \<open>DIV_ZERO\<close>, not the on-error code \<open>DIV_NAN\<close>.
\<close>

theorem error_divided_by_zero_is_tagged_div_zero:
  "nan BCD_nan
   \<and> divmod_bcd BCD_nan BCD_zero True =
       Some (Inr (bcd_error DIV_ZERO ORIG_NAN, Some (bcd_error DIV_ZERO ORIG_NAN)))
   \<and> error (bcd_error DIV_ZERO ORIG_NAN) \<noteq> DIV_NAN"
  by code_simp

subsection \<open>Shifting left by an odd count\<close>

lemma size_add_small: "a + b < 2 ^ 64 \<Longrightarrow> size_add a b = a + b"
  by (simp add: size_add_def)

lemma rd_Some: "i < length bs \<Longrightarrow> rd (Some bs) i = Inr (bs ! i)"
  by (simp add: rd_def)

lemma wr_ok: "i < length bs \<Longrightarrow> wr bs i v = Inr (bs[i := v])"
  by (simp add: wr_def)

lemma wr_or_ok: "i < length bs \<Longrightarrow> wr_or bs i v = Inr (bs[i := bs ! i OR v])"
  by (simp add: wr_or_def)

lemma shl_loop_in_bounds:
  assumes "n \<le> length bs" "n + d \<le> length ret" "length ret < 2 ^ 64" "1 \<le> i"
  shows "\<exists>ret'. shl_loop (Some bs) n d i ret = Inr ret' \<and> length ret' = length ret"
  using assms
proof (induction "n - i" arbitrary: i ret)
  case 0
  then show ?case by (simp add: shl_loop.simps)
next
  case (Suc k)
  then have lt: "i < n" by simp
  have idx: "size_add i d = i + d" "i + d < length ret"
    using lt Suc.prems by (auto simp: size_add_small)
  let ?r1 = "ret[i + d := push_bit 4 (bs ! i)]"
  let ?r2 = "?r1[i + d := ?r1 ! (i + d) OR drop_bit 4 (bs ! (i - 1))]"
  have step: "shl_loop (Some bs) n d i ret = shl_loop (Some bs) n d (i + 1) ?r2"
    using lt Suc.prems idx
    by (subst shl_loop.simps) (simp add: rd_Some wr_ok wr_or_ok)
  have "\<exists>ret'. shl_loop (Some bs) n d (i + 1) ?r2 = Inr ret' \<and> length ret' = length ?r2"
    using Suc.hyps(2) Suc.prems by (intro Suc.hyps(1)) auto
  then show ?case using step by simp
qed

text \<open>
  C10. For a canonical nonzero \<open>x\<close> with an odd number of decimal digits and an odd
  \<open>tens\<close> (the result's digit count fitting \<open>size_t\<close>), \<open>mul_bcd_pow_10\<close> allocates
  \<open>(decimal_digits x + tens + 1) div 2\<close> bytes and its last store, the \<open>|=\<close> after the
  loop, is at that very index: one byte past the end of the buffer.
\<close>

theorem mul_bcd_pow_10_odd_writes_past_end:
  assumes "canonical x" "\<not> zero_flag x" "odd (decimal_digits x)" "odd tens"
      and "decimal_digits x + tens < 2 ^ 64"
  shows "mul_bcd_pow_10 x tens =
           Inl (OOB_WRITE ((decimal_digits x + tens + 1) div 2)
                          ((decimal_digits x + tens + 1) div 2))"
proof -
  from assms(1,2) obtain bs where bs: "data x = Some bs" "bcd_digits x \<le> length bs"
      and pos: "1 \<le> bcd_digits x" and nn: "\<not> nan x"
      and dd: "decimal_digits x = 2 * bcd_digits x - 1 \<or> decimal_digits x = 2 * bcd_digits x"
    by (auto simp: canonical_def readable_def split: option.splits if_splits)
  from dd assms(3) pos have dd1: "decimal_digits x = 2 * bcd_digits x - 1" by auto
  obtain t where t: "tens = 2 * t + 1" using assms(4) by (auto elim: oddE)
  define n where "n = (decimal_digits x + tens + 1) div 2"
  have n: "n = bcd_digits x + t" using dd1 t pos by (simp add: n_def)
  have sa: "size_add (decimal_digits x) tens = decimal_digits x + tens"
    using assms(5) by (simp add: size_add_small)
  have ev: "(decimal_digits x + tens) mod 2 = 0" using dd1 t pos by presburger
  have "even (decimal_digits x + tens)" using ev by (simp add: even_iff_mod_2_eq_zero)
  moreover have "odd ((2::nat) ^ 64 - 1)" by simp
  ultimately have "decimal_digits x + tens \<noteq> 2 ^ 64 - 1" by metis
  then have "decimal_digits x + tens + 1 < 2 ^ 64" using assms(5) by linarith
  then have sa1: "size_add (decimal_digits x + tens) 1 = decimal_digits x + tens + 1"
    by (rule size_add_small)
  have diff: "size_sub (size_sub n (bcd_digits x)) ((decimal_digits x + tens) mod 2) = t"
    using n ev by (simp add: size_sub_def)
  have nb: "n < 2 ^ 64" using assms(5) by (simp add: n_def)
  have tn: "tens \<noteq> 0" "tens mod 2 \<noteq> 0" using t by auto
  have unf: "mul_bcd_pow_10 x tens =
      seq (rd (Some bs) 0) (\<lambda>x0.
      seq (wr (alloc n) t (push_bit 4 x0)) (\<lambda>buf.
      seq (shl_loop (Some bs) (bcd_digits x) t 1 buf) (\<lambda>buf.
      seq (rd (Some bs) (size_sub (bcd_digits x) 1)) (\<lambda>top.
      seq (wr_or buf (size_add (bcd_digits x) t) (drop_bit 4 top)) (\<lambda>buf.
        Inr \<lparr> data = Some buf, bcd_digits = n, decimal_digits = decimal_digits x + tens,
              negative = negative x, zero_flag = False, even_flag = True,
              constant_flag = False, nan = False, error = NON_ERR, orig_error = NON_ERR \<rparr>)))))"
    unfolding mul_bcd_pow_10_def Let_def sa sa1 n_def[symmetric] diff bs
    using nn assms(2) tn by simp
  have r0: "rd (Some bs) 0 = Inr (bs ! 0)" using bs pos by (auto simp: rd_def)
  have w0: "wr (alloc n) t (push_bit 4 (bs ! 0)) = Inr ((alloc n)[t := push_bit 4 (bs ! 0)])"
    using n pos by (auto simp: wr_def alloc_def)
  obtain buf where buf:
      "shl_loop (Some bs) (bcd_digits x) t 1 ((alloc n)[t := push_bit 4 (bs ! 0)]) = Inr buf"
      "length buf = n"
    using shl_loop_in_bounds[of "bcd_digits x" bs t "(alloc n)[t := push_bit 4 (bs ! 0)]" 1] bs n nb
    by (auto simp: alloc_def)
  have rt: "rd (Some bs) (size_sub (bcd_digits x) 1) = Inr (bs ! (bcd_digits x - 1))"
    using bs pos by (auto simp: rd_def size_sub_def)
  have last_idx: "size_add (bcd_digits x) t = n"
    using n nb by (simp add: size_add_small)
  have wl: "wr_or buf n v = Inl (OOB_WRITE n n)" for v
    using buf(2) by (simp add: wr_or_def)
  have "mul_bcd_pow_10 x tens = Inl (OOB_WRITE n n)"
    by (simp only: unf r0 seq_Inr w0 buf(1) rt last_idx wl seq_Inl)
  then show ?thesis by (simp only: n_def)
qed

theorem mul_bcd_pow_10_odd_writes_past_end_witness:
  "canonical (new_BCD_int2 123 False) \<and> \<not> zero_flag (new_BCD_int2 123 False)
   \<and> decimal_digits (new_BCD_int2 123 False) = 3
   \<and> bcd_val (new_BCD_int2 123 False) = 123
   \<and> mul_bcd_pow_10 (new_BCD_int2 123 False) 1 = Inl (OOB_WRITE 2 2)"
proof -
  have c: "canonical (new_BCD_int2 123 False)"
    unfolding new_BCD_int2_123 by code_simp
  have v: "bcd_val (new_BCD_int2 123 False) = 123"
    unfolding new_BCD_int2_123 by code_simp
  have z: "\<not> zero_flag (new_BCD_int2 123 False)" "decimal_digits (new_BCD_int2 123 False) = 3"
    by (simp_all add: new_BCD_int2_123)
  show ?thesis
    using mul_bcd_pow_10_odd_writes_past_end[OF c z(1), of 1] c v z by simp
qed

subsection \<open>Memory safety of addition and multiplication\<close>

lemma add_loop1_in_bounds:
  assumes "m \<le> length xs" "m \<le> length ys" "m \<le> length z" "i \<le> m"
  shows "\<exists>ov' z'. add_loop1 (Some xs) (Some ys) m i ov z = Inr (m, ov', z') \<and> length z' = length z"
  using assms
proof (induction "m - i" arbitrary: i ov z)
  case 0
  then show ?case by (simp add: add_loop1.simps)
next
  case (Suc k)
  then have lt: "i < m" by simp
  obtain c ov1 where st: "add_step (xs ! i) (ys ! i) ov = (c, ov1)" by (cases "add_step (xs ! i) (ys ! i) ov")
  have step: "add_loop1 (Some xs) (Some ys) m i ov z = add_loop1 (Some xs) (Some ys) m (i + 1) ov1 (z[i := c])"
    using lt Suc.prems st
    by (subst add_loop1.simps) (simp add: rd_Some wr_ok)
  have "\<exists>ov' z'. add_loop1 (Some xs) (Some ys) m (i + 1) ov1 (z[i := c]) = Inr (m, ov', z')
          \<and> length z' = length (z[i := c])"
    using Suc.hyps(2) Suc.prems lt by (intro Suc.hyps(1)) auto
  then show ?case using step by simp
qed

lemma add_loop2_in_bounds:
  assumes "m \<le> length xs" "m \<le> length z" "i \<le> m"
  shows "\<exists>i' ov' z'. add_loop2 (Some xs) m i ov z = Inr (i', ov', z') \<and> i \<le> i' \<and> i' \<le> m
           \<and> length z' = length z"
  using assms
proof (induction "m - i" arbitrary: i ov z)
  case 0
  then show ?case by (simp add: add_loop2.simps)
next
  case (Suc k)
  then have lt: "i < m" by simp
  show ?case
  proof (cases ov)
    case False
    then have "add_loop2 (Some xs) m i ov z = Inr (i, ov, z)"
      by (subst add_loop2.simps) simp
    then show ?thesis using Suc.prems by auto
  next
    case True
    obtain a ov1 where st: "add_carry_step (xs ! i) = (a, ov1)" by (cases "add_carry_step (xs ! i)")
    have step: "add_loop2 (Some xs) m i ov z = add_loop2 (Some xs) m (i + 1) ov1 (z[i := a])"
      using lt Suc.prems st True
      by (subst add_loop2.simps) (simp add: rd_Some wr_ok)
    have "\<exists>i' ov' z'. add_loop2 (Some xs) m (i + 1) ov1 (z[i := a]) = Inr (i', ov', z')
            \<and> i + 1 \<le> i' \<and> i' \<le> m \<and> length z' = length (z[i := a])"
      using Suc.hyps(2) Suc.prems lt by (intro Suc.hyps(1)) auto
    then show ?thesis using step by auto
  qed
qed

lemma rd_range_ok: "off + n \<le> length bs \<Longrightarrow> rd_range (Some bs) off n = Inr (take n (drop off bs))"
  by (simp add: rd_range_def)

lemma wr_range_ok:
  "off + length vs \<le> length bs \<Longrightarrow> \<exists>bs'. wr_range bs off vs = Inr bs' \<and> length bs' = length bs"
  by (auto simp: wr_range_def)

lemma add_digits_in_bounds:
  assumes "in_buffer x" "in_buffer y"
  shows "\<exists>r. add_digits x y = Inr r \<and> in_buffer r \<and> \<not> nan r \<and> \<not> zero_flag r
             \<and> negative r = negative x"
proof -
  from assms obtain xs ys where
      xs: "data x = Some xs" "1 \<le> bcd_digits x" "bcd_digits x \<le> length xs"
  and ys: "data y = Some ys" "1 \<le> bcd_digits y" "bcd_digits y \<le> length ys"
    by (auto simp: in_buffer_def split: option.splits)
  define mn where "mn = min (bcd_digits x) (bcd_digits y)"
  define mx where "mx = max (bcd_digits x) (bcd_digits y)"
  define x' where "x' = (if bcd_digits x < bcd_digits y then y else x)"
  obtain ls where ls: "data x' = Some ls" "mx \<le> length ls"
    using xs ys by (cases "bcd_digits x < bcd_digits y") (auto simp: x'_def mx_def)
  have mx1: "1 \<le> mx" using xs by (simp add: mx_def)
  have la: "length (alloc (mx + 1)) = mx + 1" by (simp add: alloc_def)
  have p1: "mn \<le> length xs" "mn \<le> length ys" "mn \<le> length (alloc (mx + 1))" "mn \<le> mx"
    using xs ys by (auto simp: mn_def mx_def alloc_def)
  obtain ov1 z1 where l1: "add_loop1 (Some xs) (Some ys) mn 0 False (alloc (mx + 1)) = Inr (mn, ov1, z1)"
      "length z1 = mx + 1"
    using add_loop1_in_bounds[OF p1(1,2,3), of 0 False] la by auto
  have p2: "mx \<le> length z1" using l1(2) by simp
  obtain i2 ov2 z2 where l2: "add_loop2 (Some ls) mx mn ov1 z1 = Inr (i2, ov2, z2)"
      "i2 \<le> mx" "length z2 = mx + 1"
    using add_loop2_in_bounds[OF ls(2) p2 p1(4), of ov1] l1(2) by auto
  obtain z3 where l3: "(if i2 < mx
          then seq (rd_range (Some ls) i2 (mx - i2)) (\<lambda>rest. wr_range z2 i2 rest)
          else Inr z2) = Inr z3" "length z3 = mx + 1"
  proof (cases "i2 < mx")
    case True
    have "rd_range (Some ls) i2 (mx - i2) = Inr (take (mx - i2) (drop i2 ls))"
      using True ls by (intro rd_range_ok) simp
    moreover have "\<exists>bs'. wr_range z2 i2 (take (mx - i2) (drop i2 ls)) = Inr bs' \<and> length bs' = length z2"
      using True ls l2 by (intro wr_range_ok) simp
    ultimately show ?thesis using that True l2(3) by auto
  next
    case False
    then show ?thesis using that l2(3) by simp
  qed
  define z4 where "z4 = z3[mx := (if ov2 then 1 else 0)]"
  have l4: "wr z3 mx (if ov2 then 1 else 0) = Inr z4" "length z4 = mx + 1"
    using l3(2) by (simp_all add: z4_def wr_ok)
  have l5: "rd (Some z4) (size_sub mx 1) = Inr (z4 ! (mx - 1))"
    using mx1 l4(2) by (simp add: size_sub_def rd_Some)
  have l6: "rd (Some z4) 0 = Inr (z4 ! 0)"
    using l4(2) by (simp add: rd_Some)
  have "add_digits x y =
      seq (if ov2 then Inr (mx * 2 + 1)
          else Inr (if z4 ! (mx - 1) AND 0xF0 \<noteq> 0 then mx * 2 else mx * 2 - 1))
       (\<lambda>dd.
       Inr \<lparr> data = Some z4, bcd_digits = mx + (if ov2 then 1 else 0),
             decimal_digits = dd, negative = negative x, zero_flag = False,
             even_flag = (z4 ! 0 mod 2 = 0), constant_flag = False, nan = False,
             error = NON_ERR, orig_error = NON_ERR \<rparr>)"
    unfolding add_digits_def Let_def mn_def[symmetric] mx_def[symmetric] x'_def[symmetric]
      xs(1) ys(1) ls(1) l1(1) seq_Inr prod.case l2(1) l3(1) l4(1) l5 l6 ..
  then show ?thesis
    using l4(2) mx1 by (cases ov2) (auto simp: in_buffer_def)
qed


lemma ceil_log10_le: "ceil_log10 v \<le> v"
proof (induction v rule: ceil_log10.induct)
  case (1 v)
  show ?case
  proof (cases "v \<le> 1")
    case True
    then show ?thesis by (simp add: ceil_log10.simps)
  next
    case False
    then have "ceil_log10 ((v + 9) div 10) \<le> (v + 9) div 10" using 1 by simp
    moreover have "Suc ((v + 9) div 10) \<le> v" using False by presburger
    ultimately show ?thesis using False by (subst ceil_log10.simps) simp
  qed
qed

lemma ceil_log10_pos: "2 \<le> v \<Longrightarrow> 1 \<le> ceil_log10 v"
  by (subst ceil_log10.simps) simp

lemma length_pack_digits [simp]: "length (pack_digits n a) = n"
  by (induction n arbitrary: a) simp_all

text \<open>The addend that \<open>mul_bcd\<close> builds from a nonzero product of two bytes.\<close>

lemma new_BCD_int2_staging:
  fixes staging :: "16 word"
  assumes "staging \<noteq> 0"
  shows "in_buffer (new_BCD_int2 (ucast staging) False)
       \<and> \<not> nan (new_BCD_int2 (ucast staging) False)
       \<and> \<not> zero_flag (new_BCD_int2 (ucast staging) False)
       \<and> \<not> negative (new_BCD_int2 (ucast staging) False)
       \<and> bcd_digits (new_BCD_int2 (ucast staging) False)
           = (decimal_digits (new_BCD_int2 (ucast staging) False) + 1) div 2
       \<and> decimal_digits (new_BCD_int2 (ucast staging) False) \<le> 2 ^ 16"
proof -
  let ?a = "ucast staging :: 64 word"
  have lt: "unat staging < 2 ^ 16" using unsigned_less[of staging, where ?'a = nat] by simp
  have u: "unat ?a = unat staging"
    using lt by (simp add: unsigned_ucast_eq take_bit_nat_eq_self)
  have pos: "1 \<le> unat staging" using assms by (simp add: unat_gt_0 Suc_le_eq)
  have a1: "unat (?a + 1) = unat staging + 1"
    using lt u by (simp add: unat_word_ariths)
  have nz: "?a \<noteq> 0" using pos u by (metis not_one_le_zero unat_0)
  have d1: "1 \<le> ceil_log10 (unat (?a + 1))" using pos a1 by (intro ceil_log10_pos) simp
  have d2: "ceil_log10 (unat (?a + 1)) \<le> 2 ^ 16"
    using ceil_log10_le[of "unat (?a + 1)"] a1 lt by simp
  show ?thesis
    using nz d1 d2 by (simp add: new_BCD_int2_def Let_def in_buffer_def)
qed

lemma mul_bcd_pow_10_even_in_bounds:
  assumes "in_buffer d" "\<not> nan d" "\<not> zero_flag d"
      and "bcd_digits d = (decimal_digits d + 1) div 2"
      and "tens mod 2 = 0" "tens \<noteq> 0" "decimal_digits d + tens + 1 < 2 ^ 64"
  shows "\<exists>r. mul_bcd_pow_10 d tens = Inr r \<and> in_buffer r \<and> \<not> nan r \<and> \<not> zero_flag r
             \<and> negative r = negative d"
proof -
  from assms(1) obtain ds where ds: "data d = Some ds" "1 \<le> bcd_digits d" "bcd_digits d \<le> length ds"
    by (auto simp: in_buffer_def split: option.splits)
  define n where "n = (decimal_digits d + tens + 1) div 2"
  have sa: "size_add (decimal_digits d) tens = decimal_digits d + tens"
    using assms(7) by (simp add: size_add_small)
  have sa1: "size_add (decimal_digits d + tens) 1 = decimal_digits d + tens + 1"
    using assms(7) by (simp add: size_add_small)
  have ge: "bcd_digits d \<le> n" using assms(4) by (simp add: n_def)
  have diff: "size_sub n (bcd_digits d) = n - bcd_digits d" using ge by (simp add: size_sub_def)
  have r: "rd_range (Some ds) 0 (bcd_digits d) = Inr (take (bcd_digits d) ds)"
    using ds by (simp add: rd_range_def)
  obtain buf where w: "wr_range (alloc n) (n - bcd_digits d) (take (bcd_digits d) ds) = Inr buf"
      "length buf = n"
    using wr_range_ok[of "n - bcd_digits d" "take (bcd_digits d) ds" "alloc n"] ds ge
    by (auto simp: alloc_def)
  have "mul_bcd_pow_10 d tens =
      Inr \<lparr> data = Some buf, bcd_digits = n, decimal_digits = decimal_digits d + tens,
            negative = negative d, zero_flag = False, even_flag = (even_flag d \<or> tens \<noteq> 0),
            constant_flag = False, nan = False, error = NON_ERR, orig_error = NON_ERR \<rparr>"
    unfolding mul_bcd_pow_10_def Let_def sa sa1 n_def[symmetric] diff ds(1) r seq_Inr w(1)
    using assms(2,3,5,6) by simp
  then show ?thesis using w(2) ge ds(2) by (auto simp: in_buffer_def split: option.splits)
qed

lemma copy_BCD_int_in_bounds:
  assumes "in_buffer d"
  shows "\<exists>r. copy_BCD_int d = Inr r \<and> in_buffer r \<and> nan r = nan d \<and> zero_flag r = zero_flag d
            \<and> negative r = negative d"
proof -
  from assms obtain ds where ds: "data d = Some ds" "1 \<le> bcd_digits d" "bcd_digits d \<le> length ds"
    by (auto simp: in_buffer_def split: option.splits)
  then show ?thesis
    by (simp add: copy_BCD_int_def rd_range_def in_buffer_def)
qed

lemma add_bcd_acc:
  assumes "acc_ok a" "in_buffer d" "\<not> nan d" "\<not> zero_flag d" "\<not> negative d"
  shows "\<exists>r. add_bcd a d = Inr r \<and> acc_ok r"
proof (cases "zero_flag a")
  case True
  then show ?thesis
    using assms copy_BCD_int_in_bounds[OF assms(2)]
    by (subst add_bcd.simps) (auto simp: acc_ok_def)
next
  case False
  then have ib: "in_buffer a" using assms(1) by (simp add: acc_ok_def)
  from add_digits_in_bounds[OF ib assms(2)] show ?thesis
    using False assms
    by (subst add_bcd.simps) (auto simp: acc_ok_def)
qed

lemma mul_inner_acc:
  assumes "readable x" "readable y" "i < bcd_digits x" "acc_ok answer"
      and "pow_10 mod 2 = 0" "pow_10 + 2 * (bcd_digits y - j) + 2 ^ 16 < 2 ^ 64"
  shows "\<exists>r. mul_inner x y i j pow_10 answer = Inr r \<and> acc_ok r"
  using assms(4,5,6)
proof (induction "bcd_digits y - j" arbitrary: j pow_10 answer)
  case 0
  then show ?case by (subst mul_inner.simps) simp
next
  case (Suc k)
  then have lt: "j < bcd_digits y" by simp
  from assms(1,3) obtain xs where xs: "data x = Some xs" "i < length xs"
    by (auto simp: readable_def split: option.splits)
  from assms(2) lt obtain ys where ys: "data y = Some ys" "j < length ys"
    by (auto simp: readable_def split: option.splits)
  define staging where "staging = mul_dig_pair (xs ! i) (ys ! j)"
  have next_ok: "\<exists>r. mul_inner x y i (j + 1) (pow_10 + 2) a = Inr r \<and> acc_ok r" if "acc_ok a" for a
    using Suc.hyps(2) Suc.prems lt that by (intro Suc.hyps(1)) auto
  show ?case
  proof (cases "staging = 0")
    case True
    have "mul_inner x y i j pow_10 answer = mul_inner x y i (j + 1) (pow_10 + 2) answer"
      using lt xs ys True
      by (subst mul_inner.simps) (simp add: rd_Some staging_def)
    then show ?thesis using next_ok[OF Suc.prems(1)] by simp
  next
    case False
    note st = new_BCD_int2_staging[OF False]
    let ?d0 = "new_BCD_int2 (ucast staging) False"
    have "\<exists>d. (if pow_10 \<noteq> 0 then imul_bcd_pow_10 ?d0 pow_10 else Inr ?d0) = Inr d
            \<and> in_buffer d \<and> \<not> nan d \<and> \<not> zero_flag d \<and> \<not> negative d"
    proof (cases "pow_10 = 0")
      case True
      then show ?thesis using st by simp
    next
      case nz: False
      have "decimal_digits ?d0 + pow_10 + 1 < 2 ^ 64" using st Suc.prems(3) Suc.hyps(2) by simp
      from mul_bcd_pow_10_even_in_bounds[of ?d0 pow_10] st Suc.prems(2) nz this
      show ?thesis by (auto simp: imul_bcd_pow_10_def)
    qed
    then obtain d where d: "(if pow_10 \<noteq> 0 then imul_bcd_pow_10 ?d0 pow_10 else Inr ?d0) = Inr d"
        "in_buffer d" "\<not> nan d" "\<not> zero_flag d" "\<not> negative d" by blast
    from add_bcd_acc[OF Suc.prems(1) d(2,3,4,5)] obtain a where
        a: "add_bcd answer d = Inr a" "acc_ok a" by blast
    have "mul_inner x y i j pow_10 answer = mul_inner x y i (j + 1) (pow_10 + 2) a"
      using lt xs ys False
      apply (subst mul_inner.simps)
      apply (simp only: if_True xs(1) ys(1) rd_Some seq_Inr Let_def staging_def[symmetric] if_False
                d(1) iadd_bcd_def a(1))
      done
    then show ?thesis using next_ok[OF a(2)] by simp
  qed
qed

lemma mul_outer_acc:
  assumes "readable x" "readable y" "acc_ok answer"
      and "ipow_10 mod 2 = 0"
      and "ipow_10 + 2 * (bcd_digits x - i) + 2 * bcd_digits y + 2 ^ 16 < 2 ^ 64"
  shows "\<exists>r. mul_outer x y i ipow_10 answer = Inr r \<and> acc_ok r"
  using assms(3,4,5)
proof (induction "bcd_digits x - i" arbitrary: i ipow_10 answer)
  case 0
  then show ?case by (subst mul_outer.simps) simp
next
  case (Suc k)
  then have lt: "i < bcd_digits x" by simp
  have "ipow_10 + 2 * (bcd_digits y - 0) + 2 ^ 16 < 2 ^ 64" using Suc.prems(3) by simp
  from mul_inner_acc[OF assms(1,2) lt Suc.prems(1,2) this] obtain a where
    a: "mul_inner x y i 0 ipow_10 answer = Inr a" "acc_ok a" by blast
  have "\<exists>r. mul_outer x y (i + 1) (ipow_10 + 2) a = Inr r \<and> acc_ok r"
    using Suc.hyps(2) Suc.prems lt a(2) by (intro Suc.hyps(1)) auto
  then show ?case using lt a(1) by (subst mul_outer.simps) simp
qed

text \<open>
  C8, as the code has it. For finite \<open>x\<close> and \<open>y\<close> whose digit bytes lie inside their
  buffers (and whose sizes fit \<open>size_t\<close> with room to spare): when neither is flagged
  zero, \<open>mul_bcd\<close> returns a finite value whose sign flag is set exactly when one of the
  two operands' sign flags is; when either is flagged zero it returns \<open>BCD_zero\<close>, which
  is not negative, whatever the signs.
\<close>

theorem mul_bcd_sign:
  assumes "\<not> nan x" "\<not> nan y" "readable x" "readable y"
      and "2 * bcd_digits x + 2 * bcd_digits y + 2 ^ 16 < 2 ^ 64"
  shows "(zero_flag x \<or> zero_flag y \<longrightarrow> mul_bcd x y = Inr BCD_zero)
       \<and> (\<not> zero_flag x \<and> \<not> zero_flag y \<longrightarrow>
            (\<exists>r. mul_bcd x y = Inr r \<and> \<not> nan r
                \<and> negative r = (negative x \<noteq> negative y)))"
proof -
  have z: "acc_ok BCD_zero" by (simp add: acc_ok_def BCD_zero_def)
  have "0 + 2 * (bcd_digits x - 0) + 2 * bcd_digits y + 2 ^ 16 < (2::nat) ^ 64"
    using assms(5) by simp
  from mul_outer_acc[OF assms(3,4) z _ this] obtain a where
    a: "mul_outer x y 0 0 BCD_zero = Inr a" "acc_ok a" by auto
  show ?thesis
    using assms(1,2) a by (auto simp: mul_bcd_def acc_ok_def)
qed

theorem mul_bcd_sign_witness:
  "\<not> nan (new_BCD_int2 12 False) \<and> \<not> nan (new_BCD_int2 5 True)
   \<and> readable (new_BCD_int2 12 False) \<and> readable (new_BCD_int2 5 True)
   \<and> \<not> zero_flag (new_BCD_int2 12 False) \<and> \<not> zero_flag (new_BCD_int2 5 True)
   \<and> (\<exists>r. mul_bcd (new_BCD_int2 12 False) (new_BCD_int2 5 True) = Inr r \<and> \<not> nan r \<and> negative r)"
proof -
  have h: "\<not> nan (new_BCD_int2 12 False)" "\<not> nan (new_BCD_int2 5 True)"
      "readable (new_BCD_int2 12 False)" "readable (new_BCD_int2 5 True)"
      "2 * bcd_digits (new_BCD_int2 12 False) + 2 * bcd_digits (new_BCD_int2 5 True) + 2 ^ 16
         < (2::nat) ^ 64"
    by (simp_all add: new_BCD_int2_12 new_BCD_int2_5 readable_def)
  show ?thesis
    using mul_bcd_sign[OF h] h by (simp add: new_BCD_int2_12 new_BCD_int2_5)
qed

text \<open>
  The claim as written fails for a negative \<open>x\<close> and \<open>y = 0\<close>: exactly one operand is
  negative, and the product is \<open>BCD_zero\<close>, which is not.
\<close>

theorem mul_bcd_negative_by_zero_not_negative:
  "negative (new_BCD_int2 5 True) \<and> \<not> negative BCD_zero
   \<and> mul_bcd (new_BCD_int2 5 True) BCD_zero = Inr BCD_zero"
  unfolding new_BCD_int2_5 by code_simp

subsection \<open>Comparison\<close>

lemma low_mask: "(0xF :: 8 word) = mask 4"
  by (simp add: mask_eq_exp_minus_1)

lemma low_nibble: "unat (b AND 0xF) = unat b mod 16" for b :: "8 word"
  unfolding low_mask by (simp add: unsigned_take_bit_eq take_bit_eq_mod unat_mod flip: take_bit_eq_mask)

lemma high_nibble: "unat (drop_bit 4 b) = unat b div 16" for b :: "8 word"
  by (simp add: unat_drop_bit_eq drop_bit_eq_div unat_div)

lemma byte_split: "unat b = 16 * unat (drop_bit 4 b) + unat (b AND 0xF)" for b :: "8 word"
  by (simp add: low_nibble high_nibble)

lemma high_nibble_zero_iff: "(b AND 0xF0 = 0) = (drop_bit 4 b = 0)" for b :: "8 word"
proof -
  have "b AND 0xF0 = push_bit 4 (drop_bit 4 b)"
  proof (rule bit_word_eqI)
    fix n assume "n < LENGTH(8)"
    then have "n \<in> {0,1,2,3,4,5,6,7}" by auto
    then show "bit (b AND 0xF0) n = bit (push_bit 4 (drop_bit 4 b)) n"
      by (auto simp: bit_and_iff bit_push_bit_iff bit_drop_bit_eq bit_numeral_simps)
  qed
  moreover have "unat (push_bit 4 (drop_bit 4 b)) = 16 * (unat b div 16)"
  proof -
    have "unat b < 256" using unsigned_less[of b, where ?'a = nat] by simp
    then have "16 * (unat b div 16) < 256" by simp
    then show ?thesis
      by (simp add: unsigned_push_bit_eq push_bit_eq_mult high_nibble take_bit_nat_eq_self
          mult.commute unat_word_ariths unat_div)
  qed
  ultimately have "(b AND 0xF0 = 0) = (unat b div 16 = 0)"
    by (metis mult_eq_0_iff unat_eq_zero zero_neq_numeral)
  then show ?thesis by (metis high_nibble unat_eq_zero)
qed


lemma valid_pair_nibbles:
  assumes "valid_pair b"
  shows "unat (drop_bit 4 b) \<le> 9" "unat (b AND 0xF) \<le> 9"
  using assms by (simp_all add: valid_pair_def word_le_nat_alt)

lemma pair_val_le: "valid_pair b \<Longrightarrow> pair_val b \<le> 99"
  using valid_pair_nibbles[of b] by (simp add: pair_val_def)

lemma nibble_order:
  fixes h1 l1 h2 l2 :: nat
  assumes "l1 \<le> 9" "l2 \<le> 9"
  shows "(16 * h1 + l1 < 16 * h2 + l2) = (10 * h1 + l1 < 10 * h2 + l2)"
    and "(16 * h1 + l1 = 16 * h2 + l2) = (10 * h1 + l1 = 10 * h2 + l2)"
  using assms by (cases h1 h2 rule: linorder_cases; simp)+

lemma pair_val_less_iff:
  assumes "valid_pair a" "valid_pair b"
  shows "(a < b) = (pair_val a < pair_val b)"
proof -
  have "(unat a < unat b) = (pair_val a < pair_val b)"
    unfolding pair_val_def
    by (subst byte_split[of a], subst byte_split[of b])
       (rule nibble_order(1)[OF valid_pair_nibbles(2)[OF assms(1)] valid_pair_nibbles(2)[OF assms(2)]])
  then show ?thesis by (simp add: word_less_nat_alt)
qed

lemma pair_val_eq_iff:
  assumes "valid_pair a" "valid_pair b"
  shows "(a = b) = (pair_val a = pair_val b)"
proof -
  have "(unat a = unat b) = (pair_val a = pair_val b)"
    unfolding pair_val_def
    by (subst byte_split[of a], subst byte_split[of b])
       (rule nibble_order(2)[OF valid_pair_nibbles(2)[OF assms(1)] valid_pair_nibbles(2)[OF assms(2)]])
  then show ?thesis by (simp add: word_unat_eq_iff)
qed

lemma pair_val_pos:
  assumes "b \<noteq> 0"
  shows "1 \<le> pair_val b"
proof -
  have "unat b \<noteq> 0" using assms by (simp add: unat_eq_zero)
  then have "unat (drop_bit 4 b) \<noteq> 0 \<or> unat (b AND 0xF) \<noteq> 0"
    using byte_split[of b] by auto
  then show ?thesis unfolding pair_val_def by auto
qed

lemma pair_val_high:
  assumes "b AND 0xF0 \<noteq> 0"
  shows "10 \<le> pair_val b"
proof -
  have "drop_bit 4 b \<noteq> 0" using assms high_nibble_zero_iff[of b] by simp
  then have "unat (drop_bit 4 b) \<noteq> 0" by (simp add: unat_eq_zero)
  then show ?thesis unfolding pair_val_def by auto
qed

lemma pair_val_low:
  assumes "b AND 0xF0 = 0" "valid_pair b"
  shows "pair_val b \<le> 9"
proof -
  have "drop_bit 4 b = 0" using assms(1) high_nibble_zero_iff[of b] by simp
  then have "unat (drop_bit 4 b) = 0" by simp
  then show ?thesis
    unfolding pair_val_def using valid_pair_nibbles(2)[OF assms(2)] by simp
qed

lemma mag_of_less: "list_all valid_pair ds \<Longrightarrow> mag_of ds < 100 ^ length ds"
proof (induction ds)
  case Nil
  then show ?case by simp
next
  case (Cons b ds)
  then have "pair_val b \<le> 99" "mag_of ds < 100 ^ length ds"
    by (simp_all add: pair_val_le)
  then show ?case by simp
qed

lemma mag_of_take_Suc:
  "i < length bs \<Longrightarrow> mag_of (take (Suc i) bs) = mag_of (take i bs) + 100 ^ i * pair_val (bs ! i)"
proof (induction i arbitrary: bs)
  case 0
  then show ?case by (cases bs) simp_all
next
  case (Suc i)
  then obtain b bs' where bs: "bs = b # bs'" by (cases bs) auto
  with Suc show ?case by (simp add: algebra_simps)
qed

lemma top_decides:
  fixes A B P pa pb :: nat
  assumes "A < P" "B < P" "pb < pa"
  shows "B + P * pb < A + P * pa"
proof -
  have "P * (pb + 1) \<le> P * pa" using assms(3) by (intro mult_le_mono2) simp
  then show ?thesis using assms(2) by (simp add: algebra_simps)
qed

lemma cmp_scan_order:
  assumes "n \<le> length xs" "n \<le> length ys"
      and "list_all valid_pair (take n xs)" "list_all valid_pair (take n ys)"
  shows "cmp_scan (Some xs) (Some ys) neg n =
          Inr (if mag_of (take n xs) = mag_of (take n ys) then EQUAL_TO
               else if (mag_of (take n ys) < mag_of (take n xs)) = neg then LESS_THAN
               else GREATER_THAN)"
  using assms
proof (induction n)
  case 0
  then show ?case by simp
next
  case (Suc i)
  then have lt: "i < length xs" "i < length ys" by simp_all
  have tx: "take (Suc i) xs = take i xs @ [xs ! i]" "take (Suc i) ys = take i ys @ [ys ! i]"
    using lt by (simp_all add: take_Suc_conv_app_nth)
  have v: "valid_pair (xs ! i)" "valid_pair (ys ! i)"
      "list_all valid_pair (take i xs)" "list_all valid_pair (take i ys)"
    using Suc.prems(3,4) by (simp_all add: tx)
  have IH: "cmp_scan (Some xs) (Some ys) neg i =
          Inr (if mag_of (take i xs) = mag_of (take i ys) then EQUAL_TO
               else if (mag_of (take i ys) < mag_of (take i xs)) = neg then LESS_THAN
               else GREATER_THAN)"
    using Suc.prems(1,2) v by (intro Suc.IH) simp_all
  define A where "A = mag_of (take i xs)"
  define B where "B = mag_of (take i ys)"
  define pa where "pa = pair_val (xs ! i)"
  define pb where "pb = pair_val (ys ! i)"
  have bnd: "A < 100 ^ i" "B < 100 ^ i"
    using mag_of_less[OF v(3)] mag_of_less[OF v(4)] lt by (simp_all add: A_def B_def)
  have mx: "mag_of (take (Suc i) xs) = A + 100 ^ i * pa"
    and my: "mag_of (take (Suc i) ys) = B + 100 ^ i * pb"
    using lt by (simp_all add: mag_of_take_Suc A_def B_def pa_def pb_def)
  show ?case
  proof (cases "xs ! i = ys ! i")
    case True
    then have "pa = pb" by (simp add: pa_def pb_def)
    then show ?thesis
      using True lt IH by (simp add: rd_Some mx my A_def B_def)
  next
    case False
    then have ne: "pa \<noteq> pb" using pair_val_eq_iff[OF v(1,2)] by (simp add: pa_def pb_def)
    have gt: "(ys ! i < xs ! i) = (pb < pa)"
      using pair_val_less_iff[OF v(2,1)] by (simp add: pa_def pb_def)
    show ?thesis
    proof (cases "pb < pa")
      case True
      from top_decides[OF bnd True] have "B + 100 ^ i * pb < A + 100 ^ i * pa" .
      then show ?thesis
        using False lt gt True by (simp add: rd_Some mx my)
    next
      case nlt: False
      then have "pa < pb" using ne by simp
      from top_decides[OF bnd(2,1) this] have "A + 100 ^ i * pa < B + 100 ^ i * pb" .
      then show ?thesis
        using False lt gt nlt by (simp add: rd_Some mx my)
    qed
  qed
qed


lemma cmp_scan_not_NO_COMP: "cmp_scan xd yd neg n \<noteq> Inr NO_COMP"
proof (induction n)
  case 0
  then show ?case by simp
next
  case (Suc i)
  show ?case
  proof (cases "rd xd i")
    case (Inl e)
    then show ?thesis by simp
  next
    case a: (Inr a)
    show ?thesis
    proof (cases "rd yd i")
      case (Inl e)
      then show ?thesis using a by simp
    next
      case (Inr b)
      then show ?thesis using a Suc by simp
    qed
  qed
qed

lemma cmp_bcd_NO_COMP_iff: "(cmp_bcd x y = Inr NO_COMP) = (nan x \<or> nan y)"
  by (auto simp: cmp_bcd_def cmp_scan_not_NO_COMP)

lemma canonical_bcd_digits:
  assumes "canonical x"
  shows "bcd_digits x = (decimal_digits x + 1) div 2"
  using assms by (auto simp: canonical_def)

lemma canonical_no_digits:
  assumes "canonical x" "bcd_digits x = 0"
  shows "mag_of (digits_of x) = 0" "decimal_digits x = 0"
  using assms by (auto simp: canonical_def digits_of_def split: option.splits)

lemma canonical_magnitude:
  assumes "canonical x" "0 < bcd_digits x"
  shows "10 ^ (decimal_digits x - 1) \<le> mag_of (digits_of x)"
    and "mag_of (digits_of x) < 10 ^ decimal_digits x"
    and "1 \<le> decimal_digits x"
proof -
  define n where "n = bcd_digits x"
  from assms obtain bs where bs: "data x = Some bs" "n \<le> length bs"
    by (auto simp: canonical_def readable_def n_def split: option.splits)
  obtain m where m: "n = Suc m" using assms(2) by (cases n) (auto simp: n_def)
  have ds: "digits_of x = take m bs @ [bs ! m]"
    using bs m by (simp add: digits_of_def n_def[symmetric] take_Suc_conv_app_nth)
  define top where "top = bs ! m"
  have lst: "last (digits_of x) = top" by (simp add: ds top_def)
  have val: "list_all valid_pair (take m bs)" "valid_pair top"
    using assms(1) by (simp_all add: canonical_def ds top_def)
  have nz: "top \<noteq> 0" using assms by (simp add: canonical_def lst)
  define A where "A = mag_of (take m bs)"
  have A: "A < 100 ^ m" using mag_of_less[OF val(1)] bs m by (simp add: A_def)
  have mag: "mag_of (digits_of x) = A + 100 ^ m * pair_val top"
    using mag_of_take_Suc[of m bs] bs m
    by (simp add: digits_of_def n_def[symmetric] A_def top_def)
  define P :: nat where "P = 100 ^ m"
  have p100: "(10::nat) ^ (2 * m) = P" by (simp add: power_mult P_def)
  have A': "A < P" using A by (simp add: P_def)
  have mag': "mag_of (digits_of x) = A + P * pair_val top" using mag by (simp add: P_def)
  show "10 ^ (decimal_digits x - 1) \<le> mag_of (digits_of x)"
    and "mag_of (digits_of x) < 10 ^ decimal_digits x"
    and "1 \<le> decimal_digits x"
  proof (atomize (full), cases "top AND 0xF0 = 0")
    case True
    then have dd: "decimal_digits x = 2 * m + 1"
      using assms m by (simp add: canonical_def lst n_def[symmetric])
    have lo: "1 \<le> pair_val top" "pair_val top \<le> 9"
      using pair_val_pos[OF nz] pair_val_low[OF True val(2)] by simp_all
    have l1: "P * 1 \<le> P * pair_val top" using lo(1) by (rule mult_le_mono2)
    have l2: "P * pair_val top \<le> P * 9" using lo(2) by (rule mult_le_mono2)
    have e1: "(10::nat) ^ (decimal_digits x - 1) = P" by (simp add: dd p100)
    have e2: "(10::nat) ^ decimal_digits x = 10 * P" by (simp add: dd p100)
    show "10 ^ (decimal_digits x - 1) \<le> mag_of (digits_of x)
        \<and> mag_of (digits_of x) < 10 ^ decimal_digits x \<and> 1 \<le> decimal_digits x"
      unfolding e1 e2 mag' using A' l1 l2 dd by linarith
  next
    case False
    then have dd: "decimal_digits x = 2 * m + 2"
      using assms m by (simp add: canonical_def lst n_def[symmetric])
    have hi: "10 \<le> pair_val top" "pair_val top \<le> 99"
      using pair_val_high[OF False] pair_val_le[OF val(2)] by simp_all
    have l1: "P * 10 \<le> P * pair_val top" using hi(1) by (rule mult_le_mono2)
    have l2: "P * pair_val top \<le> P * 99" using hi(2) by (rule mult_le_mono2)
    have e1: "(10::nat) ^ (decimal_digits x - 1) = 10 * P" by (simp add: dd p100)
    have e2: "(10::nat) ^ decimal_digits x = 100 * P" by (simp add: dd p100)
    show "10 ^ (decimal_digits x - 1) \<le> mag_of (digits_of x)
        \<and> mag_of (digits_of x) < 10 ^ decimal_digits x \<and> 1 \<le> decimal_digits x"
      unfolding e1 e2 mag' using A' l1 l2 dd by linarith
  qed
qed

lemma more_digits_larger:
  assumes "canonical x" "canonical y" "decimal_digits y < decimal_digits x"
  shows "mag_of (digits_of y) < mag_of (digits_of x)"
proof -
  have px: "0 < bcd_digits x" using assms(1,3) canonical_bcd_digits[OF assms(1)] by simp
  have "mag_of (digits_of y) < 10 ^ decimal_digits y"
  proof (cases "bcd_digits y = 0")
    case True
    then show ?thesis using canonical_no_digits[OF assms(2)] by simp
  next
    case False
    then show ?thesis using canonical_magnitude(2)[OF assms(2)] by simp
  qed
  also have "(10::nat) ^ decimal_digits y \<le> 10 ^ (decimal_digits x - 1)"
    using assms(3) by (intro power_increasing) simp_all
  also have "\<dots> \<le> mag_of (digits_of x)" using canonical_magnitude(1)[OF assms(1) px] .
  finally show ?thesis .
qed

text \<open>A canonical value denotes \<open>0\<close> exactly when its zero flag is set.\<close>

lemma canonical_zero_iff:
  assumes "canonical x"
  shows "(bcd_val x = 0) = zero_flag x"
proof (cases "bcd_digits x = 0")
  case True
  then show ?thesis
    using canonical_no_digits(1)[OF assms True] assms by (simp add: bcd_val_def canonical_def)
next
  case False
  then have "0 < bcd_digits x" by simp
  from canonical_magnitude(1)[OF assms this] have "0 < mag_of (digits_of x)"
    by (metis less_le_trans zero_less_numeral zero_less_power)
  then show ?thesis using False assms by (simp add: bcd_val_def canonical_def)
qed

text \<open>
  \<open>cmp_bcd\<close> returns \<open>NO_COMP\<close> exactly when an operand is in the Error state. For
  canonical finite operands, unless both are flagged zero and their sign flags differ,
  its result is the order of the two integers: sign first, then decimal-digit count, then
  the bytes from the most significant down.
\<close>

lemma cmp_bcd_agrees_with_order:
  "((cmp_bcd x y = Inr NO_COMP) = (nan x \<or> nan y))
   \<and> (canonical x \<and> canonical y \<and> \<not> (zero_flag x \<and> zero_flag y \<and> negative x \<noteq> negative y)
        \<longrightarrow> cmp_bcd x y = Inr (order_of (bcd_val x) (bcd_val y)))"
proof (intro conjI impI)
  show "(cmp_bcd x y = Inr NO_COMP) = (nan x \<or> nan y)" by (rule cmp_bcd_NO_COMP_iff)
next
  assume h: "canonical x \<and> canonical y \<and> \<not> (zero_flag x \<and> zero_flag y \<and> negative x \<noteq> negative y)"
  then have cx: "canonical x" and cy: "canonical y" by simp_all
  have fin: "\<not> nan x" "\<not> nan y" using cx cy by (simp_all add: canonical_def)
  define mx where "mx = mag_of (digits_of x)"
  define my where "my = mag_of (digits_of y)"
  have vx: "bcd_val x = (if negative x then - int mx else int mx)"
    and vy: "bcd_val y = (if negative y then - int my else int my)"
    by (simp_all add: bcd_val_def mx_def my_def)
  have zx: "zero_flag x = (mx = 0)"
    using canonical_zero_iff[OF cx] by (auto simp: vx split: if_splits)
  have zy: "zero_flag y = (my = 0)"
    using canonical_zero_iff[OF cy] by (auto simp: vy split: if_splits)
  show "cmp_bcd x y = Inr (order_of (bcd_val x) (bcd_val y))"
  proof (cases "negative x = negative y")
    case False
    then have "0 < mx \<or> 0 < my" using h zx zy by auto
    then show ?thesis
      using fin False by (auto simp: cmp_bcd_def order_of_def vx vy)
  next
    case same: True
    show ?thesis
    proof (cases "decimal_digits x = decimal_digits y")
      case False
      show ?thesis
      proof (cases "decimal_digits y < decimal_digits x")
        case True
        from more_digits_larger[OF cx cy True] have "my < mx" by (simp add: mx_def my_def)
        then show ?thesis
          using fin same False True by (auto simp: cmp_bcd_def order_of_def vx vy)
      next
        case nlt: False
        then have "decimal_digits x < decimal_digits y" using False by simp
        from more_digits_larger[OF cy cx this] have "mx < my" by (simp add: mx_def my_def)
        then show ?thesis
          using fin same False nlt by (auto simp: cmp_bcd_def order_of_def vx vy)
      qed
    next
      case dd: True
      then have n: "bcd_digits y = bcd_digits x"
        using canonical_bcd_digits[OF cx] canonical_bcd_digits[OF cy] by simp
      have unf: "cmp_bcd x y = cmp_scan (data x) (data y) (negative x) (bcd_digits x)"
        using fin same dd by (simp add: cmp_bcd_def)
      show ?thesis
      proof (cases "bcd_digits x = 0")
        case True
        then show ?thesis
          using canonical_no_digits(1)[OF cx True] canonical_no_digits(1)[of y] cy n unf
          by (simp add: order_of_def bcd_val_def)
      next
        case False
        then obtain xs ys where xs: "data x = Some xs" "bcd_digits x \<le> length xs"
            and ys: "data y = Some ys" "bcd_digits x \<le> length ys"
          using cx cy n by (auto simp: canonical_def readable_def split: option.splits)
        have dx: "digits_of x = take (bcd_digits x) xs" and dy: "digits_of y = take (bcd_digits x) ys"
          using xs ys n by (simp_all add: digits_of_def)
        have v: "list_all valid_pair (take (bcd_digits x) xs)" "list_all valid_pair (take (bcd_digits x) ys)"
          using cx cy dx dy by (simp_all add: canonical_def)
        from cmp_scan_order[OF xs(2) ys(2) v, of "negative x"]
        show ?thesis
          unfolding unf xs(1) ys(1)
          using same by (auto simp: order_of_def vx vy mx_def my_def dx dy)
      qed
    qed
  qed
qed

text \<open>
  Two instances: \<open>-12\<close> against \<open>-21\<close>, and a negative zero against \<open>5\<close>, which
  \<open>cmp_bcd\<close> orders as the integers \<open>0\<close> and \<open>5\<close>.
\<close>

lemma new_BCD_int2_21:
  "new_BCD_int2 21 neg = \<lparr> data = Some [0x21], bcd_digits = 1, decimal_digits = 2,
     negative = neg, zero_flag = False, even_flag = False, constant_flag = False, nan = False,
     error = NON_ERR, orig_error = NON_ERR \<rparr>"
  by (simp add: new_BCD_int2_eval)

lemma cmp_bcd_minus_12_minus_21:
  "canonical (new_BCD_int2 12 True) \<and> canonical (new_BCD_int2 21 True)
   \<and> bcd_val (new_BCD_int2 12 True) = - 12 \<and> bcd_val (new_BCD_int2 21 True) = - 21
   \<and> cmp_bcd (new_BCD_int2 12 True) (new_BCD_int2 21 True) = Inr GREATER_THAN"
proof -
  have c: "canonical (new_BCD_int2 12 True)" "canonical (new_BCD_int2 21 True)"
    unfolding new_BCD_int2_12 new_BCD_int2_21 by code_simp+
  have v: "bcd_val (new_BCD_int2 12 True) = - 12" "bcd_val (new_BCD_int2 21 True) = - 21"
    unfolding new_BCD_int2_12 new_BCD_int2_21 by code_simp+
  have z: "\<not> zero_flag (new_BCD_int2 12 True)" "\<not> zero_flag (new_BCD_int2 21 True)"
    by (simp_all add: new_BCD_int2_12 new_BCD_int2_21)
  show ?thesis
    using cmp_bcd_agrees_with_order[of "new_BCD_int2 12 True" "new_BCD_int2 21 True"] c v z
    by (simp add: order_of_def)
qed

lemma cmp_bcd_negative_zero_five:
  "canonical (BCD_zero\<lparr>negative := True\<rparr>) \<and> canonical (new_BCD_int2 5 False)
   \<and> bcd_val (BCD_zero\<lparr>negative := True\<rparr>) = 0 \<and> bcd_val (new_BCD_int2 5 False) = 5
   \<and> cmp_bcd (BCD_zero\<lparr>negative := True\<rparr>) (new_BCD_int2 5 False) = Inr LESS_THAN"
  unfolding new_BCD_int2_5 by code_simp

text \<open>
  The pairs left out are ordered by their sign flags alone, although both operands
  denote \<open>0\<close>.
\<close>

lemma cmp_bcd_opposite_zeros:
  assumes "canonical x" "canonical y" "zero_flag x" "zero_flag y" "negative x \<noteq> negative y"
  shows "bcd_val x = 0" and "bcd_val y = 0"
    and "cmp_bcd x y = Inr (if negative x then LESS_THAN else GREATER_THAN)"
  using assms canonical_zero_iff[of x] canonical_zero_iff[of y]
  by (simp_all add: cmp_bcd_def canonical_def)

text \<open>
  Such zeros arise from ordinary operands: \<open>opp_bcd\<close> sets the sign flag of \<open>BCD_zero\<close>, and
  the remainder of \<open>divmod(-6, -2)\<close> is \<open>BCD_zero\<close> with the sign flag set.
\<close>

lemma divmod_bcd_remainder_negative_zero:
  "case divmod_bcd (new_BCD_int2 6 True) (new_BCD_int2 2 True) True of
     Some (Inr (q, Some r)) \<Rightarrow> bcd_val q = 3 \<and> r = BCD_zero\<lparr>negative := True\<rparr>
   | _ \<Rightarrow> False"
  unfolding new_BCD_int2_6 new_BCD_int2_2 by code_simp

text \<open>
  C5. \<open>cmp_bcd\<close> does not agree with the order of the integers when one operand is a
  negative zero and the other a zero: \<open>opp_bcd\<close> makes of \<open>BCD_zero\<close> a canonical value
  that denotes \<open>0\<close>, and \<open>cmp_bcd\<close> finds it \<open>LESS_THAN\<close> \<open>BCD_zero\<close>, and \<open>BCD_zero\<close>
  \<open>GREATER_THAN\<close> it, where the comment that heads the function gives \<open>EQUAL_TO\<close> for
  operands neither of which is greater. It compares the sign flags before anything
  else; \<open>cmp_bcd_cuint\<close>, which tests the zero flag first, finds the same value
  \<open>EQUAL_TO\<close> the C integer \<open>0\<close>.
\<close>

theorem negative_zero_compares_less:
  "opp_bcd BCD_zero True = Inr (BCD_zero\<lparr>negative := True\<rparr>)
   \<and> canonical (BCD_zero\<lparr>negative := True\<rparr>) \<and> canonical BCD_zero
   \<and> bcd_val (BCD_zero\<lparr>negative := True\<rparr>) = 0 \<and> bcd_val BCD_zero = 0
   \<and> cmp_bcd (BCD_zero\<lparr>negative := True\<rparr>) BCD_zero = Inr LESS_THAN
   \<and> cmp_bcd BCD_zero (BCD_zero\<lparr>negative := True\<rparr>) = Inr GREATER_THAN
   \<and> cmp_bcd_cuint p (BCD_zero\<lparr>negative := True\<rparr>) 0 = Inr EQUAL_TO"
proof -
  have a: "opp_bcd BCD_zero True = Inr (BCD_zero\<lparr>negative := True\<rparr>)
     \<and> canonical (BCD_zero\<lparr>negative := True\<rparr>) \<and> canonical BCD_zero
     \<and> bcd_val (BCD_zero\<lparr>negative := True\<rparr>) = 0 \<and> bcd_val BCD_zero = 0
     \<and> cmp_bcd (BCD_zero\<lparr>negative := True\<rparr>) BCD_zero = Inr LESS_THAN
     \<and> cmp_bcd BCD_zero (BCD_zero\<lparr>negative := True\<rparr>) = Inr GREATER_THAN"
    by code_simp
  have b: "cmp_bcd_cuint p (BCD_zero\<lparr>negative := True\<rparr>) 0 = Inr EQUAL_TO"
    by (simp add: cmp_bcd_cuint_def BCD_zero_def)
  show ?thesis using a b by simp
qed

subsection \<open>Truth tests\<close>

text \<open>
  C9. \<open>bool_bcd\<close> returns the zero flag itself and \<open>not_bcd\<close> its negation: \<open>bool_bcd\<close>
  is true exactly when the value is flagged zero (for a canonical value: when it denotes
  \<open>0\<close>), \<open>not_bcd\<close> exactly when it is not, and the two are each other's negation.
\<close>

theorem bool_bcd_is_zero_flag:
  "bool_bcd x = zero_flag x \<and> not_bcd x = (\<not> zero_flag x) \<and> not_bcd x = (\<not> bool_bcd x)
   \<and> (canonical x \<longrightarrow> bool_bcd x = (bcd_val x = 0) \<and> not_bcd x = (bcd_val x \<noteq> 0))"
  using canonical_zero_iff[of x] by (simp add: bool_bcd_def not_bcd_def)

theorem bool_bcd_is_zero_flag_witness:
  "canonical BCD_zero \<and> bcd_val BCD_zero = 0 \<and> bool_bcd BCD_zero \<and> \<not> not_bcd BCD_zero"
proof -
  have c: "canonical BCD_zero" by code_simp
  have v: "bcd_val BCD_zero = 0" by code_simp
  show ?thesis using bool_bcd_is_zero_flag[of BCD_zero] c v by blast
qed

end
